theory Spec2Isabelle
  imports Complex_Main "HOL-Library.Word"
begin

section \<open>Numbers, bytes and time conversion\<close>

text \<open>
  JavaScript numbers are idealised: integral quantities (sample numbers, byte offsets and
  sizes, track ticks) are \<open>nat\<close> or \<open>int\<close>, and the quantities the code obtains by
  division (seconds, milliseconds) are exact rationals. Rounding of IEEE doubles and the
  non-finite results of a division by zero are outside the model; a track timescale is
  taken to be positive wherever a quotient by it is compared.
\<close>

type_synonym byte = "8 word"

text \<open>time.ts\<close>

definition secToMs :: "rat \<Rightarrow> rat" where
  "secToMs sec = sec * 1000"

definition msToSec :: "rat \<Rightarrow> rat" where
  "msToSec ms = ms / 1000"


definition usToSec :: "rat \<Rightarrow> rat" where
  "usToSec us = us / 1000000"

text \<open>\<open>Math.round\<close>: the nearest integer, a tie going up.\<close>

definition Math_round :: "rat \<Rightarrow> int" where
  "Math_round x = \<lfloor>x + 1 / 2\<rfloor>"

text \<open>\<open>Math.ceil\<close>.\<close>

definition Math_ceil :: "rat \<Rightarrow> int" where
  "Math_ceil x = \<lceil>x\<rceil>"

text \<open>
  \<open>Array.prototype.slice(start, end)\<close>: a negative index counts from the end, both
  indices are clamped to the array, and an end before the start gives the empty array.
\<close>

definition rel_index :: "int \<Rightarrow> nat \<Rightarrow> nat" where
  "rel_index i n = (if i < 0 then nat (max (int n + i) 0) else min (nat i) n)"

definition slice :: "'a list \<Rightarrow> int \<Rightarrow> int \<Rightarrow> 'a list" where
  "slice xs start fin =
     (let k = rel_index start (length xs); f = rel_index fin (length xs)
      in take (f - k) (drop k xs))"

text \<open>\<open>slice(start)\<close>, to the end of the array.\<close>

definition slice_from :: "'a list \<Rightarrow> int \<Rightarrow> 'a list" where
  "slice_from xs start = drop (rel_index start (length xs)) xs"

text \<open>\<open>Array.prototype.findLast\<close>.\<close>

definition findLast :: "('a \<Rightarrow> bool) \<Rightarrow> 'a list \<Rightarrow> 'a option" where
  "findLast P xs = find P (rev xs)"

section \<open>MP4PushEncoderMuxer.ts: the sample accumulator and the assembler\<close>

record Sample =
  number :: nat
  data :: "byte list"
  duration :: int
  dts :: int
  sync :: bool
  offset :: nat
  size_bytes :: nat

definition EMPTY_SAMPLE :: Sample where
  "EMPTY_SAMPLE =
     \<lparr>number = 0, data = [], duration = 0, dts = 0, sync = False, offset = 0, size_bytes = 0\<rparr>"

datatype chunk_type = Key | Delta

text \<open>
  An \<open>EncodedVideoChunk\<close> or \<open>EncodedAudioChunk\<close> as the callbacks read it: its type,
  its timestamp and optional duration in microseconds, and the bytes \<open>copyTo\<close> delivers
  (\<open>byteLength\<close> is their number).
\<close>

record EncodedChunk =
  chunk_kind :: chunk_type
  chunk_timestamp :: int
  chunk_duration :: "nat option"
  chunk_bytes :: "byte list"

text \<open>The sample-table boxes of one track, with the fields the assembler sets.\<close>

record stbl_boxes =
  stts_sample_counts :: "nat list"
  stts_sample_deltas :: "rat list"
  stss_sample_numbers :: "nat list option"
  stsc_samples_per_chunk :: "rat list"
  stco_chunk_offsets :: "nat list"
  stsz_sample_sizes :: "nat list"

record trak_boxes =
  tkhd_track_id :: nat
  tkhd_duration :: rat
  mdhd_timescale :: rat
  mdhd_duration :: rat
  hdlr_handler :: string
  stbl :: stbl_boxes

record moov_boxes =
  mvhd_timescale :: rat
  mvhd_duration :: rat
  traks :: "trak_boxes list"

text \<open>
  The top-level boxes of the file under construction, in the order they are added. An
  \<open>mdat\<close> box has no payload until \<open>mdat.data\<close> is assigned.
\<close>

datatype box =
    Ftyp "string option" nat "string list"
  | Mdat "byte list option"
  | Moov moov_boxes

datatype mux_error =
    FlushRejected string
  | EncoderError string
  | NoVideoSamples
  | RangeError

record MP4PushMuxerEncoder =
  compatibleBrands :: "string list"
  mdatStartOffset :: nat
  audioSampleRate :: rat
  audioSamplesPerChunk :: rat
  audioChunkSec :: rat
  videoOutputTimescale :: rat
  videoSamplesPerChunk :: rat
  videoChunkSec :: rat
  keyframeIntevalSec :: rat
  videoSamples :: "Sample list"
  audioSamples :: "Sample list"
  nextKeyframeUs :: rat
  mp4box :: "box list option"
  avcDecoderConfigRecord :: "byte list"
  encoderError :: "string option"
  encodeRequests :: "(int \<times> bool) list"

text \<open>
  \<open>encodeRequests\<close> is the queue of the video encoder: the timestamp of every frame handed
  to \<open>videoEncoder.encode\<close> with the \<open>keyFrame\<close> option it was given. \<open>mp4box\<close> is
  unset until \<open>MP4Box.createFile()\<close> runs.
\<close>

definition DEFAULT_COMPATIBLE_BRANDS :: "string list" where
  "DEFAULT_COMPATIBLE_BRANDS = [''mp42'', ''isom'', ''iso2'', ''iso5'', ''avc1'', ''mp41'']"

text \<open>The state the constructor leaves with the default configuration.\<close>

definition new_muxer :: MP4PushMuxerEncoder where
  "new_muxer =
     \<lparr>compatibleBrands = DEFAULT_COMPATIBLE_BRANDS,
      mdatStartOffset = 16 + 4 * length DEFAULT_COMPATIBLE_BRANDS + 8,
      audioSampleRate = 48000,
      audioSamplesPerChunk = 1,
      audioChunkSec = msToSec 20,
      videoOutputTimescale = 90000,
      videoSamplesPerChunk = 1,
      videoChunkSec = usToSec 33333,
      keyframeIntevalSec = 2,
      videoSamples = [],
      audioSamples = [],
      nextKeyframeUs = 0,
      mp4box = None,
      avcDecoderConfigRecord =
        [1, 77, 0, 32, 255, 225, 0, 27, 39, 77, 0, 32, 137, 139, 40, 46, 10, 60, 190, 0, 24,
         24, 0, 46, 224, 0, 11, 184, 47, 123, 224, 248, 68, 35, 44, 1, 0, 4, 40, 239, 31, 32],
      encoderError = None,
      encodeRequests = []\<rparr>"

text \<open>\<open>this.videoSamples.at(-1) ?? this.EMPTY_SAMPLE\<close>\<close>

definition prev_sample :: "Sample list \<Rightarrow> Sample" where
  "prev_sample xs = (if xs = [] then EMPTY_SAMPLE else last xs)"

definition onEncodedVideoChunk ::
  "EncodedChunk \<Rightarrow> byte list option \<Rightarrow> MP4PushMuxerEncoder \<Rightarrow> MP4PushMuxerEncoder" where
  "onEncodedVideoChunk chunk description m =
     (let m1 = (case description of
                  Some d \<Rightarrow> m\<lparr>avcDecoderConfigRecord := d\<rparr>
                | None \<Rightarrow> m);
          bytes = chunk_bytes chunk;
          prev = prev_sample (videoSamples m1);
          dts' = Math_round (usToSec (of_int (chunk_timestamp chunk)) * videoOutputTimescale m1);
          duration' = Math_round
            (usToSec (of_nat (case chunk_duration chunk of None \<Rightarrow> 0 | Some d \<Rightarrow> d))
               * videoOutputTimescale m1)
      in m1\<lparr>videoSamples := videoSamples m1 @
           [\<lparr>number = number prev + 1,
             data = bytes,
             duration = duration',
             dts = dts',
             sync = (chunk_kind chunk = Key),
             offset = offset prev + size_bytes prev,
             size_bytes = length bytes\<rparr>]\<rparr>)"

text \<open>A chunk whose duration is missing or zero is dropped with a warning.\<close>

definition onEncodedAudioChunk ::
  "EncodedChunk \<Rightarrow> MP4PushMuxerEncoder \<Rightarrow> MP4PushMuxerEncoder" where
  "onEncodedAudioChunk chunk m =
     (let bytes = chunk_bytes chunk;
          prev = prev_sample (audioSamples m)
      in case chunk_duration chunk of
           None \<Rightarrow> m
         | Some d \<Rightarrow>
             if d = 0 then m
             else
               m\<lparr>audioSamples := audioSamples m @
                 [\<lparr>number = number prev + 1,
                   data = bytes,
                   duration = Math_round (usToSec (of_nat d) * audioSampleRate m),
                   dts = Math_round (usToSec (of_int (chunk_timestamp chunk)) * audioSampleRate m),
                   sync = True,
                   offset = offset prev + size_bytes prev,
                   size_bytes = length bytes\<rparr>]\<rparr>)"

text \<open>The error callback of both encoders.\<close>

definition onError :: "string \<Rightarrow> MP4PushMuxerEncoder \<Rightarrow> MP4PushMuxerEncoder" where
  "onError e m = m\<lparr>encoderError := Some e\<rparr>"


text \<open>
  What the two \<open>flush()\<close> calls of \<open>multiplexToBuffer\<close> do: each encoder delivers its
  pending chunks to its output callback and then resolves, or rejects with an error.
\<close>

record flush_outcome =
  audio_flushed :: "EncodedChunk list"
  audio_rejected :: "string option"
  video_flushed :: "(EncodedChunk \<times> byte list option) list"
  video_rejected :: "string option"

text \<open>
  \<open>TypedArray.prototype.set(source, offset)\<close>: a \<open>RangeError\<close> (here \<open>None\<close>) when the
  source does not fit at the offset.
\<close>

definition set_bytes :: "byte list \<Rightarrow> byte list \<Rightarrow> nat \<Rightarrow> byte list option" where
  "set_bytes target source off =
     (if off + length source > length target then None
      else Some (take off target @ source @ drop (off + length source) target))"

text \<open>The two \<open>forEach\<close> loops that copy the payloads into \<open>mdatData\<close>.\<close>

fun write_samples :: "nat \<Rightarrow> Sample list \<Rightarrow> byte list \<Rightarrow> byte list option" where
  "write_samples base [] buf = Some buf"
| "write_samples base (s # ss) buf =
     (case set_bytes buf (data s) (offset s + base) of
        None \<Rightarrow> None
      | Some buf' \<Rightarrow> write_samples base ss buf')"

definition videoDurationMs :: "MP4PushMuxerEncoder \<Rightarrow> rat" where
  "videoDurationMs m =
     foldl (\<lambda>acc sample. acc + secToMs (of_int (duration sample) / videoOutputTimescale m))
       0 (videoSamples m)"

definition audioDurationMs :: "MP4PushMuxerEncoder \<Rightarrow> rat" where
  "audioDurationMs m =
     foldl (\<lambda>acc sample. acc + secToMs (of_int (duration sample) / audioSampleRate m))
       0 (audioSamples m)"

definition audioBaseOffset :: "MP4PushMuxerEncoder \<Rightarrow> nat" where
  "audioBaseOffset m = offset (last (videoSamples m)) + size_bytes (last (videoSamples m))"

definition video_trak :: "MP4PushMuxerEncoder \<Rightarrow> trak_boxes" where
  "video_trak m =
     \<lparr>tkhd_track_id = 1,
      tkhd_duration = videoDurationMs m,
      mdhd_timescale = videoOutputTimescale m,
      mdhd_duration = msToSec (videoDurationMs m) * videoOutputTimescale m,
      hdlr_handler = ''vide'',
      stbl =
        \<lparr>stts_sample_counts = [length (videoSamples m)],
         stts_sample_deltas = [videoChunkSec m * videoOutputTimescale m],
         stss_sample_numbers = Some (map number (filter sync (videoSamples m))),
         stsc_samples_per_chunk = [videoSamplesPerChunk m],
         stco_chunk_offsets = map (\<lambda>s. offset s + mdatStartOffset m) (videoSamples m),
         stsz_sample_sizes = map size_bytes (videoSamples m)\<rparr>\<rparr>"

definition audio_trak :: "MP4PushMuxerEncoder \<Rightarrow> trak_boxes" where
  "audio_trak m =
     \<lparr>tkhd_track_id = 2,
      tkhd_duration = audioDurationMs m,
      mdhd_timescale = audioSampleRate m,
      mdhd_duration = msToSec (audioDurationMs m) * audioSampleRate m,
      hdlr_handler = ''soun'',
      stbl =
        \<lparr>stts_sample_counts = [length (audioSamples m)],
         stts_sample_deltas = [audioChunkSec m * audioSampleRate m],
         stss_sample_numbers = None,
         stsc_samples_per_chunk = [audioSamplesPerChunk m],
         stco_chunk_offsets =
           map (\<lambda>s. offset s + audioBaseOffset m + mdatStartOffset m) (audioSamples m),
         stsz_sample_sizes = map size_bytes (audioSamples m)\<rparr>\<rparr>"

definition ftyp_box :: "MP4PushMuxerEncoder \<Rightarrow> box" where
  "ftyp_box m =
     Ftyp (case compatibleBrands m of [] \<Rightarrow> None | b # _ \<Rightarrow> Some b) 512 (compatibleBrands m)"

definition moov_box :: "MP4PushMuxerEncoder \<Rightarrow> box" where
  "moov_box m =
     Moov \<lparr>mvhd_timescale = 1000,
           mvhd_duration = max (audioDurationMs m) (videoDurationMs m),
           traks = [video_trak m, audio_trak m]\<rparr>"

text \<open>
  The body of \<open>multiplexToBuffer\<close> from \<open>MP4Box.createFile()\<close> on. The result is the box
  tree \<open>getBuffer()\<close> serialises.
\<close>

definition assemble ::
  "MP4PushMuxerEncoder \<Rightarrow> (mux_error + box list) \<times> MP4PushMuxerEncoder" where
  "assemble m =
     (let mdatData =
            replicate
              (foldl (\<lambda>acc sample. size_bytes sample + acc) 0 (videoSamples m)
                 + foldl (\<lambda>acc sample. size_bytes sample + acc) 0 (audioSamples m)) 0
      in case write_samples 0 (videoSamples m) mdatData of
           None \<Rightarrow> (Inl RangeError, m\<lparr>mp4box := Some [ftyp_box m, Mdat None]\<rparr>)
         | Some written \<Rightarrow>
             (case write_samples (audioBaseOffset m) (audioSamples m) written of
                None \<Rightarrow> (Inl RangeError, m\<lparr>mp4box := Some [ftyp_box m, Mdat None]\<rparr>)
              | Some filled \<Rightarrow>
                  (let boxes = [ftyp_box m, Mdat (Some filled), moov_box m]
                   in (Inr boxes, m\<lparr>mp4box := Some boxes\<rparr>))))"

definition multiplexToBuffer ::
  "flush_outcome \<Rightarrow> MP4PushMuxerEncoder \<Rightarrow> (mux_error + box list) \<times> MP4PushMuxerEncoder" where
  "multiplexToBuffer fl m =
     (let m1 = fold onEncodedAudioChunk (audio_flushed fl) m
      in case audio_rejected fl of
           Some e \<Rightarrow> (Inl (FlushRejected e), m1)
         | None \<Rightarrow>
             (let m2 = fold (\<lambda>(chunk, description). onEncodedVideoChunk chunk description)
                         (video_flushed fl) m1
              in case video_rejected fl of
                   Some e \<Rightarrow> (Inl (FlushRejected e), m2)
                 | None \<Rightarrow>
                     (case encoderError m2 of
                        Some e \<Rightarrow> (Inl (EncoderError e), m2)
                      | None \<Rightarrow>
                          if videoSamples m2 = [] then (Inl NoVideoSamples, m2)
                          else assemble m2)))"

text \<open>One chunk arriving at one of the two output callbacks.\<close>

datatype chunk_event =
    VideoChunk EncodedChunk "byte list option"
  | AudioChunk EncodedChunk

fun accumulate :: "chunk_event \<Rightarrow> MP4PushMuxerEncoder \<Rightarrow> MP4PushMuxerEncoder" where
  "accumulate (VideoChunk chunk description) m = onEncodedVideoChunk chunk description m"
| "accumulate (AudioChunk chunk) m = onEncodedAudioChunk chunk m"

text \<open>
  The accumulator invariant of one track: numbers start at 1 and increase strictly, the
  first offset is 0, and each later offset is the previous offset plus the previous size.
\<close>

definition tightly_packed :: "Sample list \<Rightarrow> bool" where
  "tightly_packed xs \<longleftrightarrow>
     (xs \<noteq> [] \<longrightarrow> number (xs ! 0) = 1 \<and> offset (xs ! 0) = 0) \<and>
     (\<forall>i. 0 < i \<and> i < length xs \<longrightarrow>
        number (xs ! (i - 1)) < number (xs ! i) \<and>
        offset (xs ! i) = offset (xs ! (i - 1)) + size_bytes (xs ! (i - 1)))"

definition accumulator_invariant :: "MP4PushMuxerEncoder \<Rightarrow> bool" where
  "accumulator_invariant m \<longleftrightarrow> tightly_packed (videoSamples m) \<and> tightly_packed (audioSamples m)"




section \<open>MP4PullDemuxer.ts: the demux indexer, the seek window and the bulk fetcher\<close>

text \<open>
  An \<open>MP4Sample\<close> of lib/mp4box.d.ts, with the fields the demuxer reads. \<open>data\<close> is
  absent until the sample's bytes have been loaded.
\<close>

record MP4Sample =
  number :: nat
  cts :: int
  dts :: int
  duration :: nat
  timescale :: nat
  is_sync :: bool
  offset :: nat
  size_bytes :: nat
  data :: "byte list option"

record IndexedMP4Sample = MP4Sample +
  ptsIndex :: nat
  dtsIndex :: nat

record SeekReturn =
  seek_ptsIndex :: int
  seek_dtsIndex :: int
  seek_samples :: "IndexedMP4Sample list"

text \<open>
  A \<open>Trak\<close>: the track's samples as the box library lists them, and the entries of its
  \<open>stsd\<close> box (absent when \<open>mdia.minf.stbl.stsd\<close> is not intact). An entry is
  represented by what its codec configuration box (\<open>avcC\<close>, \<open>hvcC\<close>, \<open>vpcC\<close> or
  \<open>av1C\<close>) writes to a stream, box header included, when it has one.
\<close>

record Trak =
  samples :: "MP4Sample list"
  stsd_entries :: "byte list option list option"

record MP4VideoTrack =
  track_id :: nat
  codec :: string
  video_width :: nat
  video_height :: nat

record MP4Info =
  info_duration :: nat
  info_timescale :: nat
  videoTracks :: "MP4VideoTrack list"

record VideoDecoderConfig =
  config_codec :: string
  codedHeight :: nat
  codedWidth :: nat
  description :: "byte list"

datatype demux_error =
    Trapped string
  | TypeError
  | SeekNoSamples
  | SeekNoKeyframe rat

text \<open>
  The demuxer. \<open>error\<close> is the private \<open>_error\<close>. \<open>getTrackById\<close> and \<open>buffers\<close>
  stand for the \<open>mp4box\<close> file object (\<open>file_blob\<close> is the \<open>file\<close> field): its track lookup and the byte buffers appended to
  its stream, each with its \<open>fileStart\<close>. \<open>reads\<close> lists the byte ranges
  \<open>file.slice(start, end)\<close> has been asked for, oldest first.
\<close>

record MP4PullDemuxer =
  videoSamples :: "IndexedMP4Sample list"
  videoTrak :: "Trak option"
  file_blob :: "byte list"
  durationMs :: rat
  moov :: bool
  videoDecoderConfig :: "VideoDecoderConfig option"
  error :: "string option"
  firstFramePtsOffsetMs :: rat
  getTrackById :: "nat \<Rightarrow> Trak option"
  buffers :: "(nat \<times> byte list) list"
  reads :: "(nat \<times> nat) list"

definition MIN_DECODER_QUEUE_SIZE :: int where
  "MIN_DECODER_QUEUE_SIZE = 20"

text \<open>\<open>{ ...s, ptsIndex: i, dtsIndex: s.number }\<close>\<close>

definition with_index :: "MP4Sample \<Rightarrow> nat \<Rightarrow> IndexedMP4Sample" where
  "with_index s i =
     \<lparr>number = number s, cts = cts s, dts = dts s, duration = duration s,
      timescale = timescale s, is_sync = is_sync s, offset = offset s,
      size_bytes = size_bytes s, data = data s, ptsIndex = i, dtsIndex = number s\<rparr>"

text \<open>
  \<open>samples.toSorted((a, b) => a.cts - b.cts).map((s, i) => ...)\<close>; \<open>toSorted\<close> is a
  stable sort, as \<open>sort_key\<close> is.
\<close>

definition index_samples :: "MP4Sample list \<Rightarrow> IndexedMP4Sample list" where
  "index_samples xs = map (\<lambda>(s, i). with_index s i) (zip (sort_key cts xs) [0..<length xs])"

definition readVideoDecoderConfig ::
  "MP4VideoTrack \<Rightarrow> MP4PullDemuxer \<Rightarrow> string + VideoDecoderConfig" where
  "readVideoDecoderConfig videoTrack d =
     (case getTrackById d (track_id videoTrack) of
        None \<Rightarrow> Inl ''mdia box not intact.''
      | Some trak \<Rightarrow>
          (case stsd_entries trak of
             None \<Rightarrow> Inl ''mdia box not intact.''
           | Some entries \<Rightarrow>
               (case fold (\<lambda>entry found. case entry of
                             Some written \<Rightarrow> Some (drop 8 written)
                           | None \<Rightarrow> found) entries None of
                  None \<Rightarrow> Inl ''avcC, hvcC, vpcC, or av1C box not found''
                | Some bytes \<Rightarrow>
                    Inr \<lparr>config_codec =
                           (if take 4 (codec videoTrack) = ''vp08'' then ''vp8''
                            else codec videoTrack),
                         codedHeight = video_height videoTrack,
                         codedWidth = video_width videoTrack,
                         description = bytes\<rparr>)))"

text \<open>
  \<open>onReady\<close>, given the answer of \<open>VideoDecoder.isConfigSupported\<close>. Its promise is
  awaited by nobody, so only the state it leaves is modelled: a \<open>TypeError\<close> (unknown
  track id, or a track without samples) stops it where it is raised, with no error trapped.
\<close>

definition onReady :: "MP4Info \<Rightarrow> bool \<Rightarrow> MP4PullDemuxer \<Rightarrow> MP4PullDemuxer" where
  "onReady info supported d =
     (let d1 = d\<lparr>moov := True\<rparr>
      in case videoTracks info of
           [] \<Rightarrow> d1\<lparr>error := Some ''mp4 file without video track''\<rparr>
         | videoTrack # _ \<Rightarrow>
             (case getTrackById d1 (track_id videoTrack) of
                None \<Rightarrow> d1\<lparr>videoTrak := None\<rparr>
              | Some trak \<Rightarrow>
                  (let d2 = d1\<lparr>videoTrak := Some trak,
                                videoSamples := index_samples (samples trak)\<rparr>
                   in case videoSamples d2 of
                        [] \<Rightarrow> d2
                      | first # _ \<Rightarrow>
                          (let d3 = d2\<lparr>firstFramePtsOffsetMs :=
                                          secToMs (of_int (cts first) / of_nat (timescale first)),
                                        durationMs :=
                                          secToMs (of_nat (info_duration info)
                                                     / of_nat (info_timescale info))\<rparr>
                           in case readVideoDecoderConfig videoTrack d3 of
                                Inl msg \<Rightarrow> d3\<lparr>error := Some msg\<rparr>
                              | Inr config \<Rightarrow>
                                  if \<not> supported
                                  then d3\<lparr>error := Some ''VideoDecoder config not supported''\<rparr>
                                  else d3\<lparr>videoDecoderConfig := Some config,
                                          buffers := []\<rparr>))))"

text \<open>
  \<open>appendBuffer\<close> when the box library rejects the file's bytes: the error is trapped.
\<close>

definition appendBuffer_failed :: "string \<Rightarrow> MP4PullDemuxer \<Rightarrow> MP4PullDemuxer" where
  "appendBuffer_failed msg d = d\<lparr>error := Some msg\<rparr>"

text \<open>
  \<open>getVideoDecoderConfig\<close>: the trapped error, the config, or (\<open>Inr None\<close>) a promise
  that waits for \<open>onReady\<close> under a ten-second timer.
\<close>

definition getVideoDecoderConfig ::
  "MP4PullDemuxer \<Rightarrow> demux_error + VideoDecoderConfig option" where
  "getVideoDecoderConfig d =
     (case error d of
        Some e \<Rightarrow> Inl (Trapped e)
      | None \<Rightarrow> Inr (videoDecoderConfig d))"

text \<open>
  Modelled from the spec: \<open>getSample\<close> of the Container Box Library, which is not part of
  the sources. It makes the payload of the track's sample with the given number
  addressable: the sample comes back with \<open>data\<close> set when some appended buffer holds its
  byte range, nothing comes back when none does, and a number outside the track is a
  \<open>TypeError\<close>.
\<close>

definition holds_range :: "'a MP4Sample_scheme \<Rightarrow> nat \<times> byte list \<Rightarrow> bool" where
  "holds_range s b \<longleftrightarrow> fst b \<le> offset s \<and> offset s + size_bytes s \<le> fst b + length (snd b)"

definition getSample ::
  "(nat \<times> byte list) list \<Rightarrow> Trak \<Rightarrow> nat \<Rightarrow> demux_error + MP4Sample option" where
  "getSample bufs trak n =
     (if n < length (samples trak)
      then (let s = samples trak ! n
            in case find (holds_range s) bufs of
                 None \<Rightarrow> Inr None
               | Some b \<Rightarrow>
                   Inr (Some (s\<lparr>data := Some (take (size_bytes s) (drop (offset s - fst b) (snd b)))\<rparr>)))
      else Inl TypeError)"

text \<open>\<open>{ ...indexedSample, ...sample }\<close>\<close>

definition merge_sample :: "IndexedMP4Sample \<Rightarrow> MP4Sample option \<Rightarrow> IndexedMP4Sample" where
  "merge_sample indexedSample sample =
     (case sample of
        None \<Rightarrow> indexedSample
      | Some s \<Rightarrow>
          \<lparr>number = number s, cts = cts s, dts = dts s, duration = duration s,
           timescale = timescale s, is_sync = is_sync s, offset = offset s,
           size_bytes = size_bytes s, data = data s,
           ptsIndex = ptsIndex indexedSample, dtsIndex = dtsIndex indexedSample\<rparr>)"

definition fetchSampleData ::
  "IndexedMP4Sample \<Rightarrow> MP4PullDemuxer \<Rightarrow> (demux_error + IndexedMP4Sample) \<times> MP4PullDemuxer" where
  "fetchSampleData indexedSample d =
     (case videoTrak d of
        None \<Rightarrow> (Inl (Trapped ''videoTrak not loaded''), d\<lparr>error := Some ''videoTrak not loaded''\<rparr>)
      | Some trak \<Rightarrow>
          (case getSample (buffers d) trak (dtsIndex indexedSample) of
             Inl e \<Rightarrow> (Inl e, d)
           | Inr sample \<Rightarrow> (Inr (merge_sample indexedSample sample), d)))"

text \<open>The \<open>map\<close> over \<open>fetchSampleData\<close>, which the first exception leaves.\<close>

fun fetch_each ::
  "IndexedMP4Sample list \<Rightarrow> MP4PullDemuxer \<Rightarrow> (demux_error + IndexedMP4Sample list) \<times> MP4PullDemuxer" where
  "fetch_each [] d = (Inr [], d)"
| "fetch_each (s # ss) d =
     (case fetchSampleData s d of
        (Inl e, d') \<Rightarrow> (Inl e, d')
      | (Inr s', d') \<Rightarrow>
          (case fetch_each ss d' of
             (Inl e, d'') \<Rightarrow> (Inl e, d'')
           | (Inr ss', d'') \<Rightarrow> (Inr (s' # ss'), d'')))"

text \<open>\<open>Blob.slice(start, end)\<close> followed by \<open>arrayBuffer()\<close>.\<close>

definition blob_slice :: "byte list \<Rightarrow> nat \<Rightarrow> nat \<Rightarrow> byte list" where
  "blob_slice bytes start fin = take (fin - start) (drop start bytes)"

definition bulkFetchSampleData ::
  "IndexedMP4Sample list \<Rightarrow> MP4PullDemuxer \<Rightarrow> (demux_error + IndexedMP4Sample list) \<times> MP4PullDemuxer" where
  "bulkFetchSampleData xs d =
     (if xs = [] then (Inr [], d)
      else
        (let resorted = sort_key offset xs;
             startOffset = offset (hd resorted);
             endOffset = offset (last resorted) + size_bytes (last resorted);
             buffer = blob_slice (file_blob d) startOffset endOffset;
             d1 = d\<lparr>reads := reads d @ [(startOffset, endOffset)],
                    buffers := buffers d @ [(startOffset, buffer)]\<rparr>
         in fetch_each (sort_key dts xs) d1))"

text \<open>The test of the loop in \<open>timestampMsToPtsIndex\<close>.\<close>

definition sample_matches :: "rat \<Rightarrow> rat \<Rightarrow> IndexedMP4Sample \<Rightarrow> bool" where
  "sample_matches ptsOffsetMs timestampMs sample =
     (let ctsMs = secToMs (of_int (cts sample) / of_nat (timescale sample)) - ptsOffsetMs;
          durationMs' = secToMs (of_nat (duration sample) / of_nat (timescale sample))
      in ctsMs \<le> timestampMs \<and> ctsMs + durationMs' \<ge> timestampMs)"

definition timestampMsToPtsIndex :: "rat \<Rightarrow> MP4PullDemuxer \<Rightarrow> int" where
  "timestampMsToPtsIndex timestampMs d =
     (case find (sample_matches (firstFramePtsOffsetMs d) timestampMs) (videoSamples d) of
        Some sample \<Rightarrow> int (ptsIndex sample)
      | None \<Rightarrow> - 1)"

definition dtsIndexToPtsIndex :: "int \<Rightarrow> MP4PullDemuxer \<Rightarrow> int" where
  "dtsIndexToPtsIndex n d =
     (case find (\<lambda>s. int (dtsIndex s) = n) (videoSamples d) of
        Some s \<Rightarrow> int (ptsIndex s)
      | None \<Rightarrow> - 1)"

text \<open>The tail both branches of \<open>seek\<close> share: fetch the window and wrap the result.\<close>

definition seek_result ::
  "IndexedMP4Sample \<Rightarrow> IndexedMP4Sample list \<Rightarrow> MP4PullDemuxer
     \<Rightarrow> (demux_error + SeekReturn) \<times> MP4PullDemuxer" where
  "seek_result frame window d =
     (case bulkFetchSampleData window d of
        (Inl e, d') \<Rightarrow> (Inl e, d')
      | (Inr fetched, d') \<Rightarrow>
          (Inr \<lparr>seek_ptsIndex = int (ptsIndex frame),
                seek_dtsIndex = int (dtsIndex frame),
                seek_samples = fetched\<rparr>, d'))"

text \<open>The samples \<open>seek\<close> asks for when the target frame is a key frame.\<close>

definition sync_window :: "IndexedMP4Sample list \<Rightarrow> int \<Rightarrow> IndexedMP4Sample list" where
  "sync_window vs targetFrameIndex =
     (let startIndex = max 0 (targetFrameIndex - Math_ceil (of_int MIN_DECODER_QUEUE_SIZE / 2));
          endIndex = min (startIndex + MIN_DECODER_QUEUE_SIZE) (int (length vs) - 1)
      in slice vs startIndex endIndex)"

text \<open>
  The samples it asks for otherwise, given the key frame before the target and the first
  one from the target on, if there is one.
\<close>

definition delta_window ::
  "IndexedMP4Sample list \<Rightarrow> IndexedMP4Sample \<Rightarrow> IndexedMP4Sample
     \<Rightarrow> IndexedMP4Sample option \<Rightarrow> IndexedMP4Sample list" where
  "delta_window vs frame lastKeyframe nextKeyframe =
     (let endIndex =
            min (max (max (case nextKeyframe of None \<Rightarrow> 0 | Some nk \<Rightarrow> int (ptsIndex nk))
                        (int (ptsIndex frame)))
                   (int (ptsIndex lastKeyframe) + MIN_DECODER_QUEUE_SIZE))
              (int (length vs) - 1)
      in slice vs (int (ptsIndex lastKeyframe)) endIndex)"

definition seek :: "rat \<Rightarrow> MP4PullDemuxer \<Rightarrow> (demux_error + SeekReturn) \<times> MP4PullDemuxer" where
  "seek timestampMs d =
     (if videoSamples d = [] then (Inl SeekNoSamples, d)
      else
        (let d1 = d\<lparr>buffers := []\<rparr>;
             targetFrameIndex = timestampMsToPtsIndex timestampMs d1
         in if targetFrameIndex = - 1
            then (Inr \<lparr>seek_ptsIndex = - 1, seek_dtsIndex = - 1, seek_samples = []\<rparr>, d1)
            else if int (length (videoSamples d1)) \<le> targetFrameIndex
            then (Inl TypeError, d1)
            else
              (let frame = videoSamples d1 ! nat targetFrameIndex
               in if is_sync frame
                  then seek_result frame (sync_window (videoSamples d1) targetFrameIndex) d1
                  else
                    (let lastKeyframe =
                           findLast is_sync (slice (videoSamples d1) 0 (int (ptsIndex frame)));
                         nextKeyframe =
                           find is_sync (slice_from (videoSamples d1) (int (ptsIndex frame)))
                     in case lastKeyframe of
                          None \<Rightarrow> (Inl (SeekNoKeyframe timestampMs), d1)
                        | Some lk \<Rightarrow>
                            seek_result frame
                              (delta_window (videoSamples d1) frame lk nextKeyframe) d1))))"

definition readAllSamples ::
  "MP4PullDemuxer \<Rightarrow> (demux_error + IndexedMP4Sample list) \<times> MP4PullDemuxer" where
  "readAllSamples d = bulkFetchSampleData (videoSamples d) (d\<lparr>buffers := []\<rparr>)"

text \<open>The demuxer the constructor leaves, before any byte of the file is parsed.\<close>

definition new_demuxer :: "byte list \<Rightarrow> (nat \<Rightarrow> Trak option) \<Rightarrow> MP4PullDemuxer" where
  "new_demuxer bytes tracks =
     \<lparr>videoSamples = [], videoTrak = None, file_blob = bytes, durationMs = 0, moov = False,
      videoDecoderConfig = None, error = None, firstFramePtsOffsetMs = 0,
      getTrackById = tracks, buffers = [(0, bytes)], reads = []\<rparr>"

section \<open>Notions the properties of the demuxer are stated with\<close>

text \<open>
  Modelled from the spec: the sample list the Container Box Library gives for a track,
  which is not part of the sources. The list is in decode order and the \<open>number\<close> of a
  sample is its position in it, counted from 0.
\<close>

definition numbered :: "MP4Sample list \<Rightarrow> bool" where
  "numbered xs \<longleftrightarrow> map number xs = [0..<length xs]"

text \<open>
  The demuxer has indexed the track: \<open>onReady\<close> has stored it and its samples, sorted
  and numbered.
\<close>

definition indexed :: "Trak \<Rightarrow> MP4PullDemuxer \<Rightarrow> bool" where
  "indexed trak d \<longleftrightarrow>
     numbered (samples trak) \<and> videoTrak d = Some trak \<and>
     videoSamples d = index_samples (samples trak)"

text \<open>
  What \<open>fetchSampleData\<close> leaves of an indexed sample of the track: the sample with its
  payload taken from the first buffer that holds its byte range, or the sample as it was.
\<close>

definition populate :: "(nat \<times> byte list) list \<Rightarrow> IndexedMP4Sample \<Rightarrow> IndexedMP4Sample" where
  "populate bufs s =
     (case find (holds_range s) bufs of
        None \<Rightarrow> s
      | Some b \<Rightarrow> s\<lparr>data := Some (take (size_bytes s) (drop (offset s - fst b) (snd b)))\<rparr>)"

text \<open>
  An indexed sample with the bytes of the file at its byte range as payload.
\<close>

definition loaded :: "byte list \<Rightarrow> IndexedMP4Sample \<Rightarrow> IndexedMP4Sample" where
  "loaded bytes s = s\<lparr>data := Some (blob_slice bytes (offset s) (offset s + size_bytes s))\<rparr>"

text \<open>
  What a caller observes of a seek result: the index of the target frame, and the
  presentation index and sync flag of every sample of the window, in the order returned.
\<close>

definition window_view :: "SeekReturn \<Rightarrow> int \<times> (nat \<times> bool) list" where
  "window_view r = (seek_ptsIndex r, map (\<lambda>s. (ptsIndex s, is_sync s)) (seek_samples r))"

section \<open>Example inputs\<close>

definition demo_chunk :: "chunk_type \<Rightarrow> int \<Rightarrow> nat option \<Rightarrow> byte list \<Rightarrow> EncodedChunk" where
  "demo_chunk k t d bs =
     \<lparr>chunk_kind = k, chunk_timestamp = t, chunk_duration = d, chunk_bytes = bs\<rparr>"

text \<open>Both encoders had nothing pending and both \<open>flush()\<close> calls resolve.\<close>

definition nothing_flushed :: flush_outcome where
  "nothing_flushed =
     \<lparr>audio_flushed = [], audio_rejected = None, video_flushed = [], video_rejected = None\<rparr>"


text \<open>
  A file of \<open>n\<close> bytes, the byte at position \<open>i\<close> being \<open>i\<close>.
\<close>

definition demo_file :: "nat \<Rightarrow> byte list" where
  "demo_file n = map of_nat [0..<n]"

text \<open>
  A track sample with the given number, composition and decode timestamps, duration and
  sync flag, at timescale 1000 (one tick is one millisecond), ten bytes long.
\<close>

definition demo_frame :: "nat \<Rightarrow> int \<Rightarrow> int \<Rightarrow> nat \<Rightarrow> bool \<Rightarrow> MP4Sample" where
  "demo_frame n c dt dur k =
     \<lparr>number = n, cts = c, dts = dt, duration = dur, timescale = 1000, is_sync = k,
      offset = 10 * n, size_bytes = 10, data = None\<rparr>"

text \<open>
  A track of such samples with one \<open>avcC\<close> entry, the movie information that goes with
  it, and the demuxer after \<open>onReady\<close> has run on them.
\<close>

definition demo_trak :: "MP4Sample list \<Rightarrow> Trak" where
  "demo_trak xs = \<lparr>samples = xs, stsd_entries = Some [Some [0, 0, 0, 9, 97, 118, 99, 67, 1]]\<rparr>"

definition demo_info :: "MP4Sample list \<Rightarrow> MP4Info" where
  "demo_info xs =
     \<lparr>info_duration = sum_list (map duration xs), info_timescale = 1000,
      videoTracks = [\<lparr>track_id = 1, codec = ''avc1.4d0034'', video_width = 640, video_height = 480\<rparr>]\<rparr>"

definition demo_parse :: "bool \<Rightarrow> byte list \<Rightarrow> MP4Sample list \<Rightarrow> MP4PullDemuxer" where
  "demo_parse supported bytes xs =
     onReady (demo_info xs) supported
       (new_demuxer bytes (\<lambda>i. if i = 1 then Some (demo_trak xs) else None))"

text \<open>
  Three samples that span 0 to 1000 ms, 1000 to 1033 ms and 1033 to 1066 ms; the first is
  the only key frame.
\<close>

definition three_frames :: "MP4Sample list" where
  "three_frames =
     [demo_frame 0 0 0 1000 True, demo_frame 1 1000 1000 33 False, demo_frame 2 1033 1033 33 False]"

definition three_parsed :: MP4PullDemuxer where
  "three_parsed = demo_parse True (demo_file 30) three_frames"

definition three_window :: SeekReturn where
  "three_window =
     \<lparr>seek_ptsIndex = 1, seek_dtsIndex = 1,
      seek_samples =
        [loaded (demo_file 30) (with_index (demo_frame 0 0 0 1000 True) 0),
         loaded (demo_file 30) (with_index (demo_frame 1 1000 1000 33 False) 1)]\<rparr>"

text \<open>
  The same file when the decoder configuration is not supported.
\<close>

definition unsupported_parsed :: MP4PullDemuxer where
  "unsupported_parsed = demo_parse False (demo_file 30) three_frames"

text \<open>
  Thirteen samples of one second each, with key frames at 0 and at 11.
\<close>

definition gop_frame :: "nat \<Rightarrow> MP4Sample" where
  "gop_frame n = demo_frame n (1000 * int n) (1000 * int n) 1000 (n = 0 \<or> n = 11)"

definition gop13 :: "MP4Sample list" where
  "gop13 = map gop_frame [0..<13]"

definition gop13_parsed :: MP4PullDemuxer where
  "gop13_parsed = demo_parse True (demo_file 130) gop13"

text \<open>
  What \<open>seek\<close> returns on it for a timestamp within sample 11: the samples 1 to 11
  with their bytes.
\<close>

definition gop13_window :: SeekReturn where
  "gop13_window =
     \<lparr>seek_ptsIndex = 11, seek_dtsIndex = 11,
      seek_samples = map (\<lambda>i. loaded (demo_file 130) (with_index (gop_frame i) i)) [1..<12]\<rparr>"

text \<open>
  Two samples with the same decode timestamp (the first has duration 0), presented in the
  opposite order.
\<close>

definition tied_frames :: "MP4Sample list" where
  "tied_frames = [demo_frame 0 10 0 0 True, demo_frame 1 5 0 10 False]"

definition tied_parsed :: MP4PullDemuxer where
  "tied_parsed = demo_parse True (demo_file 20) tied_frames"

text \<open>
  Three samples of 50 bytes each at the byte offsets 200, 0 and 100 of a file of 250
  bytes.
\<close>

definition scattered :: "MP4Sample list" where
  "scattered =
     [(demo_frame 0 0 0 1000 True)\<lparr>offset := 200, size_bytes := 50\<rparr>,
      (demo_frame 1 1000 1000 1000 False)\<lparr>offset := 0, size_bytes := 50\<rparr>,
      (demo_frame 2 2000 2000 1000 False)\<lparr>offset := 100, size_bytes := 50\<rparr>]"

definition scattered_parsed :: MP4PullDemuxer where
  "scattered_parsed = demo_parse True (demo_file 250) scattered"

text \<open>
  Three samples whose presentation order (0, 2, 1) differs from their decode order.
\<close>

definition reordered :: "MP4Sample list" where
  "reordered =
     [demo_frame 0 0 0 1000 True, demo_frame 1 2000 1000 1000 False, demo_frame 2 1000 2000 1000 False]"

definition reordered_parsed :: MP4PullDemuxer where
  "reordered_parsed = demo_parse True (demo_file 30) reordered"

section \<open>Properties of the sample accumulator\<close>

lemma tightly_packed_single:
  "Sample.number s = 1 \<Longrightarrow> Sample.offset s = 0 \<Longrightarrow> tightly_packed [s]"
  unfolding tightly_packed_def by auto

lemma tightly_packed_snoc:
  assumes "tightly_packed xs"
    and "Sample.number s = Sample.number (prev_sample xs) + 1"
    and "Sample.offset s = Sample.offset (prev_sample xs) + Sample.size_bytes (prev_sample xs)"
  shows "tightly_packed (xs @ [s])"
proof (cases "xs = []")
  case True
  with assms(2,3) have "Sample.number s = 1" "Sample.offset s = 0"
    by (simp_all add: prev_sample_def EMPTY_SAMPLE_def)
  with True show ?thesis
    by (simp add: tightly_packed_single)
next
  case False
  then have last: "prev_sample xs = xs ! (length xs - 1)"
    by (simp add: prev_sample_def last_conv_nth)
  from assms(1) False have first: "Sample.number (xs ! 0) = 1" "Sample.offset (xs ! 0) = 0"
    unfolding tightly_packed_def by blast+
  from assms(1) have inner: "Sample.number (xs ! (i - 1)) < Sample.number (xs ! i) \<and>
        Sample.offset (xs ! i) = Sample.offset (xs ! (i - 1)) + Sample.size_bytes (xs ! (i - 1))"
    if "0 < i" "i < length xs" for i
    unfolding tightly_packed_def using that by blast
  have step: "Sample.number ((xs @ [s]) ! (i - 1)) < Sample.number ((xs @ [s]) ! i) \<and>
        Sample.offset ((xs @ [s]) ! i) =
          Sample.offset ((xs @ [s]) ! (i - 1)) + Sample.size_bytes ((xs @ [s]) ! (i - 1))"
    if "0 < i" "i < length (xs @ [s])" for i
  proof (cases "i < length xs")
    case True
    then have "i - 1 < length xs" by simp
    with True that(1) inner [of i] show ?thesis
      by (simp add: nth_append)
  next
    case False
    with that(2) have "i = length xs" by simp
    with \<open>xs \<noteq> []\<close> assms(2,3) last show ?thesis
      by (simp add: nth_append)
  qed
  from False first have "Sample.number ((xs @ [s]) ! 0) = 1" "Sample.offset ((xs @ [s]) ! 0) = 0"
    by (simp_all add: nth_append)
  with step show ?thesis
    unfolding tightly_packed_def by blast
qed

lemma onEncodedVideoChunk_packed:
  "tightly_packed (MP4PushMuxerEncoder.videoSamples m) \<Longrightarrow>
   tightly_packed (MP4PushMuxerEncoder.videoSamples (onEncodedVideoChunk chunk desc m))"
  by (cases desc) (simp_all add: onEncodedVideoChunk_def Let_def tightly_packed_snoc)

lemma onEncodedVideoChunk_audio:
  "audioSamples (onEncodedVideoChunk chunk desc m) = audioSamples m"
  by (cases desc) (simp_all add: onEncodedVideoChunk_def Let_def)

lemma onEncodedAudioChunk_packed:
  "tightly_packed (audioSamples m) \<Longrightarrow> tightly_packed (audioSamples (onEncodedAudioChunk chunk m))"
  by (simp add: onEncodedAudioChunk_def Let_def tightly_packed_snoc split: option.splits)

lemma onEncodedAudioChunk_video:
  "MP4PushMuxerEncoder.videoSamples (onEncodedAudioChunk chunk m) =
   MP4PushMuxerEncoder.videoSamples m"
  by (simp add: onEncodedAudioChunk_def Let_def split: option.splits)

text \<open>
  Claim C5. The accumulator invariant holds of a new muxer and is preserved by every chunk
  that reaches either output callback: on the video track and on the audio track the
  sequence numbers start at 1 and increase strictly, the first byte offset is 0, and every
  later sample starts where the previous one ends (an audio chunk that is dropped for its
  missing duration leaves the track as it was).
\<close>

theorem accumulator_invariant_push:
  "accumulator_invariant new_muxer \<and>
   (accumulator_invariant m \<longrightarrow> accumulator_invariant (accumulate ev m))"
proof
  show "accumulator_invariant new_muxer"
    by (simp add: accumulator_invariant_def new_muxer_def tightly_packed_def)
  show "accumulator_invariant m \<longrightarrow> accumulator_invariant (accumulate ev m)"
    by (cases ev)
      (simp_all add: accumulator_invariant_def onEncodedVideoChunk_packed
        onEncodedVideoChunk_audio onEncodedAudioChunk_packed onEncodedAudioChunk_video)
qed

theorem accumulator_invariant_push_witness:
  "accumulator_invariant new_muxer \<and>
   accumulator_invariant
     (accumulate (VideoChunk (demo_chunk Key 0 (Some 33333) [1, 2, 3]) None) new_muxer) \<and>
   map Sample.number (MP4PushMuxerEncoder.videoSamples
       (accumulate (VideoChunk (demo_chunk Delta 33333 (Some 33333) [4, 5]) None)
         (accumulate (VideoChunk (demo_chunk Key 0 (Some 33333) [1, 2, 3]) None) new_muxer)))
     = [1, 2] \<and>
   map Sample.offset (MP4PushMuxerEncoder.videoSamples
       (accumulate (VideoChunk (demo_chunk Delta 33333 (Some 33333) [4, 5]) None)
         (accumulate (VideoChunk (demo_chunk Key 0 (Some 33333) [1, 2, 3]) None) new_muxer)))
     = [0, 3]"
  using accumulator_invariant_push
    [of new_muxer "VideoChunk (demo_chunk Key 0 (Some 33333) [1, 2, 3]) None"]
  by (simp add: onEncodedVideoChunk_def demo_chunk_def new_muxer_def prev_sample_def
      EMPTY_SAMPLE_def Let_def)

section \<open>Properties of the assembler\<close>

lemma onEncodedAudioChunk_frame:
  "mp4box (onEncodedAudioChunk chunk m) = mp4box m"
  "encoderError (onEncodedAudioChunk chunk m) = encoderError m"
  by (simp_all add: onEncodedAudioChunk_def Let_def split: option.splits)

lemma fold_onEncodedAudioChunk_frame:
  "mp4box (fold onEncodedAudioChunk cs m) = mp4box m \<and>
   encoderError (fold onEncodedAudioChunk cs m) = encoderError m \<and>
   MP4PushMuxerEncoder.videoSamples (fold onEncodedAudioChunk cs m) =
     MP4PushMuxerEncoder.videoSamples m"
  by (induction cs arbitrary: m)
    (simp_all add: onEncodedAudioChunk_frame onEncodedAudioChunk_video)

text \<open>
  Claim C8. \<open>multiplexToBuffer\<close> with no video sample accumulated (none before the flush
  and none delivered by it), on a muxer whose flushes resolve and which has trapped no
  encoder error, fails with the "no video samples" error. The failure comes before
  \<open>MP4Box.createFile()\<close>: the only change to the muxer is the audio the flush delivered,
  and its \<open>mp4box\<close> field, which would hold the \<open>ftyp\<close>, \<open>mdat\<close> and \<open>moov\<close> boxes, is
  what it was.
\<close>

theorem multiplex_no_video_samples:
  assumes "MP4PushMuxerEncoder.videoSamples m = []" and "video_flushed fl = []"
    and "audio_rejected fl = None" and "video_rejected fl = None" and "encoderError m = None"
  shows "multiplexToBuffer fl m =
           (Inl NoVideoSamples, fold onEncodedAudioChunk (audio_flushed fl) m) \<and>
         mp4box (fold onEncodedAudioChunk (audio_flushed fl) m) = mp4box m"
  using assms by (simp add: multiplexToBuffer_def Let_def fold_onEncodedAudioChunk_frame)

theorem multiplex_no_video_samples_witness:
  "multiplexToBuffer nothing_flushed new_muxer = (Inl NoVideoSamples, new_muxer) \<and>
   mp4box new_muxer = None"
  using multiplex_no_video_samples [of new_muxer nothing_flushed]
  by (simp add: nothing_flushed_def new_muxer_def)

section \<open>Properties of \<open>pushVideoFrame\<close>\<close>














section \<open>Properties of the demux indexer\<close>

lemma length_index_samples [simp]: "length (index_samples xs) = length xs"
  by (simp add: index_samples_def)

lemma nth_index_samples:
  "i < length xs \<Longrightarrow> index_samples xs ! i = with_index (sort_key cts xs ! i) i"
  by (simp add: index_samples_def)

lemma index_samples_mem:
  assumes "s \<in> set (index_samples xs)"
  obtains i where "i < length xs" and "s = with_index (sort_key cts xs ! i) i"
proof -
  from assms obtain i where "i < length (index_samples xs)" "s = index_samples xs ! i"
    by (auto simp add: in_set_conv_nth)
  then show thesis
    using that [of i] by (simp add: nth_index_samples)
qed

lemma numbered_nth: "numbered xs \<Longrightarrow> i < length xs \<Longrightarrow> number (xs ! i) = i"
proof -
  assume a: "numbered xs" "i < length xs"
  then have "map number xs ! i = [0..<length xs] ! i"
    by (simp add: numbered_def)
  with a(2) show ?thesis by simp
qed

lemma numbered_lookup:
  assumes "numbered xs" and "r \<in> set xs"
  shows "number r < length xs \<and> xs ! number r = r"
proof -
  from assms(2) obtain i where "i < length xs" "r = xs ! i"
    by (auto simp add: in_set_conv_nth)
  with numbered_nth [OF assms(1), of i] show ?thesis by simp
qed

lemma with_index_fields [simp]:
  "offset (with_index r i) = offset r"
  "size_bytes (with_index r i) = size_bytes r"
  "dtsIndex (with_index r i) = number r"
  "ptsIndex (with_index r i) = i"
  "is_sync (with_index r i) = is_sync r"
  "cts (with_index r i) = cts r"
  "dts (with_index r i) = dts r"
  "duration (with_index r i) = duration r"
  "timescale (with_index r i) = timescale r"
  "number (with_index r i) = number r"
  by (simp_all add: with_index_def)

lemma holds_range_with_index [simp]: "holds_range (with_index r i) = holds_range r"
  by (rule ext) (simp add: holds_range_def with_index_def)

lemma onReady_indexed:
  assumes "videoTracks info = videoTrack # others" and "getTrackById d (track_id videoTrack) = Some trak"
    and "numbered (samples trak)"
  shows "indexed trak (onReady info supported d)"
  using assms
  by (simp add: onReady_def Let_def indexed_def split: list.splits sum.splits)

lemma map_ptsIndex_index_samples: "map ptsIndex (index_samples xs) = [0..<length xs]"
  by (rule nth_equalityI) (simp_all add: nth_index_samples)

lemma map_dtsIndex_index_samples:
  "map dtsIndex (index_samples xs) = map number (sort_key cts xs)"
  by (rule nth_equalityI) (simp_all add: nth_index_samples)

lemma map_cts_index_samples: "map cts (index_samples xs) = map cts (sort_key cts xs)"
  by (rule nth_equalityI) (simp_all add: nth_index_samples)

lemma numbered_distinct: "numbered xs \<Longrightarrow> distinct (map number xs)"
  by (simp add: numbered_def)

lemma numbered_set: "numbered xs \<Longrightarrow> number ` set xs = {0..<length xs}"
proof -
  assume "numbered xs"
  then have "set (map number xs) = set [0..<length xs]"
    by (simp only: numbered_def)
  then show ?thesis by simp
qed

lemma dtsIndex_permutation:
  assumes "numbered xs"
  shows "distinct (map dtsIndex (index_samples xs))"
    and "set (map dtsIndex (index_samples xs)) = {0..<length xs}"
proof -
  from numbered_distinct [OF assms] have "distinct xs" "inj_on number (set xs)"
    by (simp_all add: distinct_map)
  then have "distinct (map number (sort_key cts xs))"
    by (simp add: distinct_map)
  then show "distinct (map dtsIndex (index_samples xs))"
    by (simp only: map_dtsIndex_index_samples)
  show "set (map dtsIndex (index_samples xs)) = {0..<length xs}"
    by (simp add: map_dtsIndex_index_samples numbered_set [OF assms])
qed

lemma dtsIndex_is_position:
  assumes "numbered xs" and "s \<in> set (index_samples xs)"
  shows "dtsIndex s < length xs \<and> with_index (xs ! dtsIndex s) (ptsIndex s) = s"
proof -
  from assms(2) obtain i where i: "i < length xs" "s = with_index (sort_key cts xs ! i) i"
    by (rule index_samples_mem)
  from i(1) have "sort_key cts xs ! i \<in> set (sort_key cts xs)"
    by (simp del: set_sort)
  then have "sort_key cts xs ! i \<in> set xs" by simp
  from numbered_lookup [OF assms(1) this] i(2) show ?thesis by simp
qed

lemma dtsIndexToPtsIndex_inverse:
  assumes "numbered xs" and "videoSamples d = index_samples xs" and "x < length xs"
  shows "dtsIndexToPtsIndex (int (dtsIndex (videoSamples d ! x))) d = int x"
proof -
  let ?vs = "index_samples xs"
  have "find (\<lambda>s. int (dtsIndex s) = int (dtsIndex (?vs ! x))) ?vs = Some (?vs ! x)"
    unfolding find_Some_iff
  proof (intro exI [of _ x] conjI allI impI)
    fix j assume "j < x"
    with assms(3) have "j < length (map dtsIndex ?vs)" "x < length (map dtsIndex ?vs)" "j \<noteq> x"
      by simp_all
    with dtsIndex_permutation(1) [OF assms(1)] have "map dtsIndex ?vs ! j \<noteq> map dtsIndex ?vs ! x"
      by (simp only: nth_eq_iff_index_eq not_False_eq_True)
    with \<open>j < x\<close> assms(3) show "\<not> int (dtsIndex (?vs ! j)) = int (dtsIndex (?vs ! x))"
      by simp
  qed (use assms(3) in simp_all)
  with assms(3) show ?thesis
    by (simp add: dtsIndexToPtsIndex_def assms(2) nth_index_samples)
qed

lemma dtsIndexToPtsIndex_total:
  assumes "numbered xs" and "videoSamples d = index_samples xs" and "y < length xs"
  shows "\<exists>x<length xs. dtsIndexToPtsIndex (int y) d = int x \<and> dtsIndex (videoSamples d ! x) = y"
proof -
  from assms(3) dtsIndex_permutation(2) [OF assms(1)] have "y \<in> set (map dtsIndex (index_samples xs))"
    by simp
  then obtain x where x: "x < length xs" "dtsIndex (index_samples xs ! x) = y"
    by (auto simp add: in_set_conv_nth)
  with dtsIndexToPtsIndex_inverse [OF assms(1,2) x(1)] show ?thesis
    by (auto simp add: assms(2))
qed

text \<open>
  The example files.
\<close>

lemma demo_frame_fields [simp]:
  "number (demo_frame n c dt dur k) = n"
  "cts (demo_frame n c dt dur k) = c"
  "dts (demo_frame n c dt dur k) = dt"
  "duration (demo_frame n c dt dur k) = dur"
  "timescale (demo_frame n c dt dur k) = 1000"
  "is_sync (demo_frame n c dt dur k) = k"
  "offset (demo_frame n c dt dur k) = 10 * n"
  "size_bytes (demo_frame n c dt dur k) = 10"
  by (simp_all add: demo_frame_def)

lemma loaded_fields [simp]:
  "is_sync (loaded bytes s) = is_sync s"
  "dts (loaded bytes s) = dts s"
  "ptsIndex (loaded bytes s) = ptsIndex s"
  "dtsIndex (loaded bytes s) = dtsIndex s"
  "offset (loaded bytes s) = offset s"
  "size_bytes (loaded bytes s) = size_bytes s"
  "data (loaded bytes s) = Some (blob_slice bytes (offset s) (offset s + size_bytes s))"
  by (simp_all add: loaded_def)

lemma length_demo_file [simp]: "length (demo_file n) = n"
  by (simp add: demo_file_def)

lemma indexed_demo: "numbered xs \<Longrightarrow> indexed (demo_trak xs) (demo_parse supported bytes xs)"
  unfolding demo_parse_def
  by (rule onReady_indexed [where videoTrack = "\<lparr>track_id = 1, codec = ''avc1.4d0034'', video_width = 640, video_height = 480\<rparr>" and others = "[]"])
    (simp_all add: demo_info_def new_demuxer_def demo_trak_def)

lemma demo_parse_fields:
  assumes "xs \<noteq> []"
  shows "videoSamples (demo_parse supported bytes xs) = index_samples xs"
    and "videoTrak (demo_parse supported bytes xs) = Some (demo_trak xs)"
    and "firstFramePtsOffsetMs (demo_parse supported bytes xs) =
          secToMs (of_int (cts (hd (index_samples xs))) / of_nat (timescale (hd (index_samples xs))))"
    and "error (demo_parse supported bytes xs) =
          (if supported then None else Some ''VideoDecoder config not supported'')"
    and "buffers (demo_parse supported bytes xs) = (if supported then [] else [(0, bytes)])"
    and "reads (demo_parse supported bytes xs) = []"
    and "file_blob (demo_parse supported bytes xs) = bytes"
proof -
  from assms have "length (index_samples xs) \<noteq> 0" by simp
  then obtain first rest where "index_samples xs = first # rest"
    by (cases "index_samples xs") simp_all
  then show "videoSamples (demo_parse supported bytes xs) = index_samples xs"
    and "videoTrak (demo_parse supported bytes xs) = Some (demo_trak xs)"
    and "firstFramePtsOffsetMs (demo_parse supported bytes xs) =
          secToMs (of_int (cts (hd (index_samples xs))) / of_nat (timescale (hd (index_samples xs))))"
    and "error (demo_parse supported bytes xs) =
          (if supported then None else Some ''VideoDecoder config not supported'')"
    and "buffers (demo_parse supported bytes xs) = (if supported then [] else [(0, bytes)])"
    and "reads (demo_parse supported bytes xs) = []"
    and "file_blob (demo_parse supported bytes xs) = bytes"
    by (simp_all add: demo_parse_def onReady_def new_demuxer_def demo_info_def Let_def
      readVideoDecoderConfig_def demo_trak_def)
qed

lemma numbered_reordered: "numbered reordered"
  by (simp add: numbered_def reordered_def upt_rec)

lemma index_reordered: "index_samples reordered =
   [with_index (demo_frame 0 0 0 1000 True) 0, with_index (demo_frame 2 1000 2000 1000 False) 1,
    with_index (demo_frame 1 2000 1000 1000 False) 2]"
  by (simp add: index_samples_def reordered_def upt_rec numeral_2_eq_2)

lemma reordered_nonempty: "reordered \<noteq> []"
  by (simp add: reordered_def)

lemmas reordered_fields =
  demo_parse_fields [OF reordered_nonempty, where bytes = "demo_file 30" and supported = True,
    folded reordered_parsed_def, unfolded index_reordered]

text \<open>
  Claim C7. When \<open>onReady\<close> has indexed the first video track, whose samples the box
  library numbers by their position in decode order: there are as many indexed samples as
  the track has samples; the \<open>ptsIndex\<close> of each is its position in \<open>videoSamples\<close>, so
  the values are 0, 1, ... in order; the composition timestamps do not decrease along that
  order; the \<open>dtsIndex\<close> values are pairwise distinct and are exactly the numbers below
  the count, and each is the position of its sample in the track's decode-order list.
  \<open>dtsIndexToPtsIndex\<close> and the lookup \<open>videoSamples[x].dtsIndex\<close> (the class has no
  method for this direction) are inverse to each other on these indices: going from a
  presentation index to the decode index and back gives the presentation index, and every
  decode index below the count is found at a presentation index that carries it.
\<close>

theorem indexing_is_bijective:
  assumes "videoTracks info = videoTrack # others"
    and "getTrackById d0 (track_id videoTrack) = Some trak"
    and "numbered (samples trak)"
  shows "length (videoSamples (onReady info supported d0)) = length (samples trak) \<and>
    map ptsIndex (videoSamples (onReady info supported d0)) = [0..<length (samples trak)] \<and>
    sorted (map cts (videoSamples (onReady info supported d0))) \<and>
    distinct (map dtsIndex (videoSamples (onReady info supported d0))) \<and>
    set (map dtsIndex (videoSamples (onReady info supported d0))) = {0..<length (samples trak)} \<and>
    (\<forall>s\<in>set (videoSamples (onReady info supported d0)).
       with_index (samples trak ! dtsIndex s) (ptsIndex s) = s) \<and>
    (\<forall>x<length (samples trak).
       dtsIndexToPtsIndex (int (dtsIndex (videoSamples (onReady info supported d0) ! x)))
         (onReady info supported d0) = int x) \<and>
    (\<forall>y<length (samples trak). \<exists>x<length (samples trak).
       dtsIndexToPtsIndex (int y) (onReady info supported d0) = int x \<and>
       dtsIndex (videoSamples (onReady info supported d0) ! x) = y)"
proof -
  let ?d = "onReady info supported d0"
  from onReady_indexed [OF assms] have vs: "videoSamples ?d = index_samples (samples trak)"
    by (simp add: indexed_def)
  note num = assms(3)
  show ?thesis
    unfolding vs
    using dtsIndex_permutation [OF num] dtsIndex_is_position [OF num]
      dtsIndexToPtsIndex_inverse [OF num vs] dtsIndexToPtsIndex_total [OF num vs]
    by (simp add: map_ptsIndex_index_samples map_cts_index_samples vs)
qed

text \<open>
  On the reordered track the decode indices in presentation order are 0, 2, 1.
\<close>

theorem indexing_is_bijective_witness:
  "numbered reordered \<and>
   map dtsIndex (videoSamples reordered_parsed) = [0, 2, 1] \<and>
   map ptsIndex (videoSamples reordered_parsed) = [0, 1, 2] \<and>
   map cts (videoSamples reordered_parsed) = [0, 1000, 2000] \<and>
   dtsIndexToPtsIndex 0 reordered_parsed = 0 \<and>
   dtsIndexToPtsIndex 1 reordered_parsed = 2 \<and>
   dtsIndexToPtsIndex 2 reordered_parsed = 1"
proof -
  have a: "videoTracks (demo_info reordered) =
      \<lparr>track_id = 1, codec = ''avc1.4d0034'', video_width = 640, video_height = 480\<rparr> # []"
    by (simp add: demo_info_def)
  have b: "getTrackById (new_demuxer (demo_file 30) (\<lambda>i. if i = 1 then Some (demo_trak reordered) else None))
      (track_id \<lparr>track_id = 1, codec = ''avc1.4d0034'', video_width = 640, video_height = 480\<rparr>) =
      Some (demo_trak reordered)"
    by (simp add: new_demuxer_def)
  have c: "numbered (samples (demo_trak reordered))"
    by (simp add: demo_trak_def numbered_reordered)
  from indexing_is_bijective [OF a b c, of True] numbered_reordered show ?thesis
    by (simp add: reordered_fields dtsIndexToPtsIndex_def)
qed

section \<open>Properties of the bulk fetcher\<close>

lemma merge_sample_with_index:
  "merge_sample (with_index r i) (Some (r\<lparr>data := p\<rparr>)) = (with_index r i)\<lparr>data := p\<rparr>"
  by (simp add: merge_sample_def with_index_def)

lemma populate_with_index:
  "populate bufs (with_index r i) =
     (case find (holds_range r) bufs of
        None \<Rightarrow> with_index r i
      | Some b \<Rightarrow>
          (with_index r i)\<lparr>data := Some (take (size_bytes r) (drop (offset r - fst b) (snd b)))\<rparr>)"
  by (simp add: populate_def split: option.splits)

lemma getSample_numbered:
  assumes "number r < length (samples trak)" and "samples trak ! number r = r"
  shows "getSample bufs trak (number r) =
     (case find (holds_range r) bufs of
        None \<Rightarrow> Inr None
      | Some b \<Rightarrow> Inr (Some (r\<lparr>data := Some (take (size_bytes r) (drop (offset r - fst b) (snd b)))\<rparr>)))"
  using assms by (simp add: getSample_def Let_def)

lemma fetchSampleData_indexed:
  assumes "numbered (samples trak)" and "videoTrak d = Some trak"
    and "s \<in> set (index_samples (samples trak))"
  shows "fetchSampleData s d = (Inr (populate (buffers d) s), d)"
proof -
  from assms(3) obtain i where i: "i < length (samples trak)"
      "s = with_index (sort_key cts (samples trak) ! i) i"
    by (rule index_samples_mem)
  define r where "r = sort_key cts (samples trak) ! i"
  from i(1) have "r \<in> set (sort_key cts (samples trak))"
    unfolding r_def by (simp del: set_sort)
  then have "r \<in> set (samples trak)" by simp
  with assms(1) have "number r < length (samples trak)" "samples trak ! number r = r"
    using numbered_lookup by blast+
  then have g: "getSample (buffers d) trak (number r) =
     (case find (holds_range r) (buffers d) of
        None \<Rightarrow> Inr None
      | Some b \<Rightarrow> Inr (Some (r\<lparr>data := Some (take (size_bytes r) (drop (offset r - fst b) (snd b)))\<rparr>)))"
    by (rule getSample_numbered)
  have s: "s = with_index r i"
    by (simp add: i(2) r_def)
  show ?thesis
    unfolding s
    by (cases "find (holds_range r) (buffers d)")
      (simp_all add: fetchSampleData_def assms(2) g populate_with_index merge_sample_with_index,
        simp add: merge_sample_def)
qed

lemma fetch_each_indexed:
  assumes "numbered (samples trak)" and "videoTrak d = Some trak"
    and "set xs \<subseteq> set (index_samples (samples trak))"
  shows "fetch_each xs d = (Inr (map (populate (buffers d)) xs), d)"
  using assms(3)
proof (induction xs)
  case Nil
  then show ?case by simp
next
  case (Cons x xs)
  then show ?case
    by (simp add: fetchSampleData_indexed [OF assms(1,2)])
qed

lemma bulkFetchSampleData_indexed:
  assumes "numbered (samples trak)" and "videoTrak d = Some trak"
    and "set xs \<subseteq> set (index_samples (samples trak))" and "xs \<noteq> []"
  shows "bulkFetchSampleData xs d =
     (let startOffset = offset (hd (sort_key offset xs));
          endOffset = offset (last (sort_key offset xs)) + size_bytes (last (sort_key offset xs));
          bufs = buffers d @ [(startOffset, blob_slice (file_blob d) startOffset endOffset)]
      in (Inr (map (populate bufs) (sort_key dts xs)),
          d\<lparr>reads := reads d @ [(startOffset, endOffset)], buffers := bufs\<rparr>))"
  using assms by (simp add: bulkFetchSampleData_def Let_def fetch_each_indexed)

lemma populate_fields [simp]:
  "is_sync (populate bufs s) = is_sync s"
  "dts (populate bufs s) = dts s"
  "cts (populate bufs s) = cts s"
  "ptsIndex (populate bufs s) = ptsIndex s"
  "dtsIndex (populate bufs s) = dtsIndex s"
  "offset (populate bufs s) = offset s"
  "size_bytes (populate bufs s) = size_bytes s"
  "number (populate bufs s) = number s"
  by (simp_all add: populate_def split: option.splits)

lemma populate_data_only: "(populate bufs s)\<lparr>data := None\<rparr> = s\<lparr>data := None\<rparr>"
  by (simp add: populate_def split: option.splits)

lemma hd_sort_key_least:
  assumes "y \<in> set xs"
  shows "f (hd (sort_key f xs)) \<le> f y"
proof -
  from assms have "y \<in> set (sort_key f xs)" by simp
  moreover have "sorted (map f (sort_key f xs))" by simp
  ultimately show ?thesis
    by (cases "sort_key f xs") auto
qed

lemma populate_covered:
  assumes "st \<le> offset s" and "offset s + size_bytes s \<le> en" and "en \<le> length bytes"
  shows "populate [(st, blob_slice bytes st en)] s =
     s\<lparr>data := Some (blob_slice bytes (offset s) (offset s + size_bytes s))\<rparr>"
proof -
  from assms have len: "length (blob_slice bytes st en) = en - st"
    by (simp add: blob_slice_def)
  with assms have "holds_range s (st, blob_slice bytes st en)"
    by (simp add: holds_range_def)
  moreover from assms have "take (size_bytes s) (drop (offset s - st) (blob_slice bytes st en)) =
      blob_slice bytes (offset s) (offset s + size_bytes s)"
    by (simp add: blob_slice_def drop_take min_def)
  ultimately show ?thesis
    by (simp add: populate_def)
qed

lemma sorted_by_agreeing_key:
  fixes f :: "'a \<Rightarrow> int" and g :: "'a \<Rightarrow> nat"
  assumes "sorted (map f ys)" and "\<forall>a\<in>set ys. \<forall>b\<in>set ys. g a < g b \<longrightarrow> f a < f b"
  shows "sorted (map g ys)"
proof -
  from assms(1) have "sorted_wrt (\<lambda>a b. f a \<le> f b) ys"
    by (simp add: sorted_map)
  then have "sorted_wrt (\<lambda>a b. g a \<le> g b) ys"
  proof (rule sorted_wrt_mono_rel [rotated])
    fix a b assume "a \<in> set ys" "b \<in> set ys" "f a \<le> f b"
    with assms(2) show "g a \<le> g b"
      by (meson leD leI)
  qed
  then show ?thesis by (simp add: sorted_map)
qed

lemma bulkFetchSampleData_loaded:
  assumes "indexed trak d" and "set xs \<subseteq> set (videoSamples d)" and "xs \<noteq> []"
    and "\<forall>s\<in>set xs. offset s + size_bytes s
           \<le> offset (last (sort_key offset xs)) + size_bytes (last (sort_key offset xs))"
    and "offset (last (sort_key offset xs)) + size_bytes (last (sort_key offset xs))
           \<le> length (file_blob d)"
  shows "bulkFetchSampleData xs (d\<lparr>buffers := []\<rparr>) =
     (Inr (map (loaded (file_blob d)) (sort_key dts xs)),
      d\<lparr>reads := reads d @
            [(offset (hd (sort_key offset xs)),
              offset (last (sort_key offset xs)) + size_bytes (last (sort_key offset xs)))],
        buffers :=
            [(offset (hd (sort_key offset xs)),
              blob_slice (file_blob d) (offset (hd (sort_key offset xs)))
                (offset (last (sort_key offset xs)) + size_bytes (last (sort_key offset xs))))]\<rparr>)"
proof -
  define st where "st = offset (hd (sort_key offset xs))"
  define en where "en = offset (last (sort_key offset xs)) + size_bytes (last (sort_key offset xs))"
  from assms(1,2) have "numbered (samples trak)" "videoTrak (d\<lparr>buffers := []\<rparr>) = Some trak"
      "set xs \<subseteq> set (index_samples (samples trak))"
    by (simp_all add: indexed_def)
  from bulkFetchSampleData_indexed [OF this assms(3)]
  have fetch: "bulkFetchSampleData xs (d\<lparr>buffers := []\<rparr>) =
      (Inr (map (populate [(st, blob_slice (file_blob d) st en)]) (sort_key dts xs)),
       d\<lparr>reads := reads d @ [(st, en)], buffers := [(st, blob_slice (file_blob d) st en)]\<rparr>)"
    by (simp add: Let_def st_def en_def)
  have "populate [(st, blob_slice (file_blob d) st en)] s = loaded (file_blob d) s"
    if "s \<in> set xs" for s
  proof -
    from that have "st \<le> offset s"
      unfolding st_def by (rule hd_sort_key_least)
    moreover from that assms(4) have "offset s + size_bytes s \<le> en"
      by (simp add: en_def)
    moreover from assms(5) have "en \<le> length (file_blob d)"
      by (simp add: en_def)
    ultimately show ?thesis
      by (simp add: populate_covered loaded_def)
  qed
  then have "map (populate [(st, blob_slice (file_blob d) st en)]) (sort_key dts xs) =
      map (loaded (file_blob d)) (sort_key dts xs)"
    by simp
  with fetch show ?thesis
    by (simp add: st_def en_def)
qed

lemma clean_buffers_idle: "buffers d = [] \<Longrightarrow> d\<lparr>buffers := []\<rparr> = d"
  by (cases d) simp

lemma blob_slice_demo_file:
  "a \<le> b \<Longrightarrow> b \<le> n \<Longrightarrow> blob_slice (demo_file n) a b = map of_nat [a..<b]"
  by (simp add: blob_slice_def demo_file_def take_map drop_map)

lemma numbered_tied: "numbered tied_frames"
  by (simp add: numbered_def tied_frames_def upt_rec)

lemma index_tied: "index_samples tied_frames =
   [with_index (demo_frame 1 5 0 10 False) 0, with_index (demo_frame 0 10 0 0 True) 1]"
  by (simp add: index_samples_def tied_frames_def upt_rec)

lemma tied_nonempty: "tied_frames \<noteq> []"
  by (simp add: tied_frames_def)

lemmas tied_fields =
  demo_parse_fields [OF tied_nonempty, where bytes = "demo_file 20" and supported = True,
    folded tied_parsed_def, unfolded index_tied]

lemma indexed_tied: "indexed (demo_trak tied_frames) tied_parsed"
  unfolding tied_parsed_def by (rule indexed_demo [OF numbered_tied])

lemma numbered_scattered: "numbered scattered"
  by (simp add: numbered_def scattered_def upt_rec)

lemma index_scattered: "index_samples scattered =
   [with_index ((demo_frame 0 0 0 1000 True)\<lparr>offset := 200, size_bytes := 50\<rparr>) 0,
    with_index ((demo_frame 1 1000 1000 1000 False)\<lparr>offset := 0, size_bytes := 50\<rparr>) 1,
    with_index ((demo_frame 2 2000 2000 1000 False)\<lparr>offset := 100, size_bytes := 50\<rparr>) 2]"
  by (simp add: index_samples_def scattered_def upt_rec numeral_2_eq_2)

lemma scattered_nonempty: "scattered \<noteq> []"
  by (simp add: scattered_def)

lemmas scattered_fields =
  demo_parse_fields [OF scattered_nonempty, where bytes = "demo_file 250" and supported = True,
    folded scattered_parsed_def, unfolded index_scattered]

lemma indexed_scattered: "indexed (demo_trak scattered) scattered_parsed"
  unfolding scattered_parsed_def by (rule indexed_demo [OF numbered_scattered])

text \<open>
  The file with two samples of equal decode timestamp: the track numbers them 0 and 1,
  and \<open>readAllSamples\<close> returns them with decode indices 1, 0. The fetcher sorts by the
  decode timestamp \<open>dts\<close>, and the stable sort keeps the presentation order of a tie.
\<close>

theorem bulk_fetch_orders_by_timestamp:
  "map number (samples (demo_trak tied_frames)) = [0, 1] \<and>
   map_sum id (map dtsIndex) (fst (readAllSamples tied_parsed)) = Inr [1, 0]"
  using bulkFetchSampleData_loaded [OF indexed_tied, of "videoSamples tied_parsed"]
  by (simp add: readAllSamples_def tied_fields demo_trak_def tied_frames_def)

text \<open>
  Claim C6, as amended. An empty input gives an empty result and leaves the demuxer as it
  is, so nothing is read. For a non-empty input, taken from the indexed samples, on a
  demuxer whose buffers have been cleaned: the fetch asks the file for exactly one byte
  range, from the least offset of the input to the end of the sample that is last in
  offset order, and hands it to the box library; it returns the samples of the input,
  changed in their payload only, sorted stably by decode timestamp. That is the order of
  \<open>dtsIndex\<close> whenever, over the input, a smaller decode index has a smaller decode
  timestamp. Every returned sample whose byte range ends within the range read, the range
  lying within the file, carries the bytes of the file at its byte range.
\<close>

theorem bulk_fetch_one_read:
  assumes "indexed trak d" and "set xs \<subseteq> set (videoSamples d)" and "buffers d = []"
  shows "bulkFetchSampleData [] d = (Inr [], d) \<and>
    (xs \<noteq> [] \<longrightarrow>
      (\<exists>ys. bulkFetchSampleData xs d =
              (Inr ys,
               d\<lparr>reads := reads d @
                   [(offset (hd (sort_key offset xs)),
                     offset (last (sort_key offset xs)) + size_bytes (last (sort_key offset xs)))],
                 buffers :=
                   [(offset (hd (sort_key offset xs)),
                     blob_slice (file_blob d) (offset (hd (sort_key offset xs)))
                       (offset (last (sort_key offset xs)) + size_bytes (last (sort_key offset xs))))]\<rparr>) \<and>
            map (\<lambda>s. s\<lparr>data := None\<rparr>) ys = map (\<lambda>s. s\<lparr>data := None\<rparr>) (sort_key dts xs) \<and>
            sorted (map dts ys) \<and>
            ((\<forall>a\<in>set xs. \<forall>b\<in>set xs. dtsIndex a < dtsIndex b \<longrightarrow> dts a < dts b) \<longrightarrow>
               sorted (map dtsIndex ys)) \<and>
            (\<forall>y\<in>set ys.
               offset y + size_bytes y
                 \<le> offset (last (sort_key offset xs)) + size_bytes (last (sort_key offset xs)) \<and>
               offset (last (sort_key offset xs)) + size_bytes (last (sort_key offset xs))
                 \<le> length (file_blob d) \<longrightarrow>
               data y = Some (blob_slice (file_blob d) (offset y) (offset y + size_bytes y)))))"
proof (intro conjI impI)
  show "bulkFetchSampleData [] d = (Inr [], d)"
    by (simp add: bulkFetchSampleData_def)
next
  assume ne: "xs \<noteq> []"
  define st where "st = offset (hd (sort_key offset xs))"
  define en where "en = offset (last (sort_key offset xs)) + size_bytes (last (sort_key offset xs))"
  define bufs where "bufs = [(st, blob_slice (file_blob d) st en)]"
  define ys where "ys = map (populate bufs) (sort_key dts xs)"
  from assms(1,2) have "numbered (samples trak)" "videoTrak d = Some trak"
      "set xs \<subseteq> set (index_samples (samples trak))"
    by (simp_all add: indexed_def)
  from bulkFetchSampleData_indexed [OF this ne]
  have fetch: "bulkFetchSampleData xs d =
      (Inr ys, d\<lparr>reads := reads d @ [(st, en)], buffers := bufs\<rparr>)"
    by (simp add: Let_def ys_def bufs_def st_def en_def assms(3))
  have same: "map (\<lambda>s. s\<lparr>data := None\<rparr>) ys = map (\<lambda>s. s\<lparr>data := None\<rparr>) (sort_key dts xs)"
    by (simp add: ys_def populate_data_only)
  have "map dts ys = map dts (sort_key dts xs)"
    by (simp add: ys_def)
  then have sorted_dts: "sorted (map dts ys)"
    by simp
  have by_index: "sorted (map dtsIndex ys)"
    if "\<forall>a\<in>set xs. \<forall>b\<in>set xs. dtsIndex a < dtsIndex b \<longrightarrow> dts a < dts b"
  proof (rule sorted_by_agreeing_key [OF sorted_dts])
    from that show "\<forall>a\<in>set ys. \<forall>b\<in>set ys. dtsIndex a < dtsIndex b \<longrightarrow> dts a < dts b"
      by (auto simp add: ys_def)
  qed
  have payload: "data y = Some (blob_slice (file_blob d) (offset y) (offset y + size_bytes y))"
    if "y \<in> set ys" "offset y + size_bytes y \<le> en" "en \<le> length (file_blob d)" for y
  proof -
    from that(1) obtain s where s: "s \<in> set xs" "y = populate bufs s"
      by (auto simp add: ys_def)
    from s(1) have "st \<le> offset s"
      unfolding st_def by (rule hd_sort_key_least)
    moreover from that(2) s(2) have "offset s + size_bytes s \<le> en" by simp
    ultimately have "populate bufs s =
        s\<lparr>data := Some (blob_slice (file_blob d) (offset s) (offset s + size_bytes s))\<rparr>"
      unfolding bufs_def using that(3) by (rule populate_covered)
    with s(2) show ?thesis by simp
  qed
  from fetch same sorted_dts by_index payload
  show "\<exists>ys. bulkFetchSampleData xs d =
              (Inr ys,
               d\<lparr>reads := reads d @
                   [(offset (hd (sort_key offset xs)),
                     offset (last (sort_key offset xs)) + size_bytes (last (sort_key offset xs)))],
                 buffers :=
                   [(offset (hd (sort_key offset xs)),
                     blob_slice (file_blob d) (offset (hd (sort_key offset xs)))
                       (offset (last (sort_key offset xs)) + size_bytes (last (sort_key offset xs))))]\<rparr>) \<and>
            map (\<lambda>s. s\<lparr>data := None\<rparr>) ys = map (\<lambda>s. s\<lparr>data := None\<rparr>) (sort_key dts xs) \<and>
            sorted (map dts ys) \<and>
            ((\<forall>a\<in>set xs. \<forall>b\<in>set xs. dtsIndex a < dtsIndex b \<longrightarrow> dts a < dts b) \<longrightarrow>
               sorted (map dtsIndex ys)) \<and>
            (\<forall>y\<in>set ys.
               offset y + size_bytes y
                 \<le> offset (last (sort_key offset xs)) + size_bytes (last (sort_key offset xs)) \<and>
               offset (last (sort_key offset xs)) + size_bytes (last (sort_key offset xs))
                 \<le> length (file_blob d) \<longrightarrow>
               data y = Some (blob_slice (file_blob d) (offset y) (offset y + size_bytes y)))"
    unfolding st_def [symmetric] en_def [symmetric] bufs_def [symmetric]
    by (intro exI [of _ ys]) blast
qed

text \<open>
  Offsets 200, 0, 100 with sizes 50: one read of the range from 0 to 250, and the samples
  come back in decode order with their own bytes.
\<close>

theorem bulk_fetch_one_read_witness:
  "indexed (demo_trak scattered) scattered_parsed \<and> buffers scattered_parsed = [] \<and>
   reads (snd (bulkFetchSampleData (videoSamples scattered_parsed) scattered_parsed)) = [(0, 250)] \<and>
   map_sum id (map (\<lambda>s. (dtsIndex s, offset s)))
     (fst (bulkFetchSampleData (videoSamples scattered_parsed) scattered_parsed)) =
     Inr [(0, 200), (1, 0), (2, 100)] \<and>
   map_sum id (map data)
     (fst (bulkFetchSampleData (videoSamples scattered_parsed) scattered_parsed)) =
     Inr [Some (map of_nat [200..<250]), Some (map of_nat [0..<50]), Some (map of_nat [100..<150])]"
  using bulk_fetch_one_read [OF indexed_scattered, of "videoSamples scattered_parsed"]
    bulkFetchSampleData_loaded [OF indexed_scattered, of "videoSamples scattered_parsed"]
    indexed_scattered
  by (simp add: scattered_fields clean_buffers_idle loaded_def blob_slice_demo_file)

section \<open>Properties of the timestamp lookup and of \<open>seek\<close>\<close>

lemma slice_int: "slice xs (int a) (int b) = take (b - a) (drop a xs)"
  by (cases "a \<le> length xs"; cases "b \<le> length xs")
    (simp_all add: slice_def rel_index_def min_def)

lemma slice_from_int: "slice_from xs (int a) = drop a xs"
  by (simp add: slice_from_def rel_index_def min_def)

lemma timestampMsToPtsIndex_buffers [simp]:
  "timestampMsToPtsIndex t (d\<lparr>buffers := b\<rparr>) = timestampMsToPtsIndex t d"
  by (simp add: timestampMsToPtsIndex_def)

lemma find_index_samples:
  assumes "find P (index_samples xs) = Some frame"
  shows "ptsIndex frame < length xs \<and> index_samples xs ! ptsIndex frame = frame"
proof -
  from assms obtain i where i: "i < length (index_samples xs)" "frame = index_samples xs ! i"
    by (auto simp add: find_Some_iff)
  then have "ptsIndex frame = i"
    by (simp add: nth_index_samples)
  with i show ?thesis by simp
qed

lemma seek_indexed:
  assumes "indexed trak d" and "videoSamples d \<noteq> []"
  shows "seek t d =
     (case find (sample_matches (firstFramePtsOffsetMs d) t) (videoSamples d) of
        None \<Rightarrow>
          (Inr \<lparr>seek_ptsIndex = - 1, seek_dtsIndex = - 1, seek_samples = []\<rparr>, d\<lparr>buffers := []\<rparr>)
      | Some frame \<Rightarrow>
          if is_sync frame
          then seek_result frame (sync_window (videoSamples d) (int (ptsIndex frame)))
                 (d\<lparr>buffers := []\<rparr>)
          else
            (case findLast is_sync (take (ptsIndex frame) (videoSamples d)) of
               None \<Rightarrow> (Inl (SeekNoKeyframe t), d\<lparr>buffers := []\<rparr>)
             | Some lk \<Rightarrow>
                 seek_result frame
                   (delta_window (videoSamples d) frame lk
                      (find is_sync (drop (ptsIndex frame) (videoSamples d))))
                   (d\<lparr>buffers := []\<rparr>)))"
proof (cases "find (sample_matches (firstFramePtsOffsetMs d) t) (videoSamples d)")
  case None
  with assms(2) show ?thesis
    by (simp add: seek_def timestampMsToPtsIndex_def Let_def)
next
  case (Some frame)
  from assms(1) have vs: "videoSamples d = index_samples (samples trak)"
    by (simp add: indexed_def)
  from Some have p: "ptsIndex frame < length (videoSamples d)"
      "videoSamples d ! ptsIndex frame = frame"
    using find_index_samples [of _ "samples trak" frame] by (simp_all add: vs)
  have t: "timestampMsToPtsIndex t d = int (ptsIndex frame)"
    by (simp add: timestampMsToPtsIndex_def Some)
  from assms(2) p show ?thesis
    by (simp add: seek_def t Some Let_def slice_from_int slice_int [of _ 0, simplified]
        split: option.splits)
qed

lemma Math_ceil_half_queue: "Math_ceil (of_int MIN_DECODER_QUEUE_SIZE / 2) = 10"
  unfolding Math_ceil_def MIN_DECODER_QUEUE_SIZE_def
  by (rule ceiling_unique) simp_all

lemma sync_window_nat:
  assumes "vs \<noteq> []"
  shows "sync_window vs (int p) =
     take (min (p - 10 + 20) (length vs - 1) - (p - 10)) (drop (p - 10) vs)"
proof -
  have a: "max 0 (int p - 10) = int (p - 10)" by simp
  from assms have b: "min (int (p - 10) + 20) (int (length vs) - 1) =
      int (min (p - 10 + 20) (length vs - 1))"
    by (cases vs) simp_all
  show ?thesis
    unfolding sync_window_def Math_ceil_half_queue
    unfolding Let_def MIN_DECODER_QUEUE_SIZE_def a b slice_int ..
qed

lemma sync_window_numeral:
  "vs \<noteq> [] \<Longrightarrow> sync_window vs (numeral k) =
     take (min (numeral k - 10 + 20) (length vs - 1) - (numeral k - 10)) (drop (numeral k - 10) vs)"
  using sync_window_nat [of vs "numeral k"] by simp

lemma delta_window_nat:
  assumes "vs \<noteq> []"
  shows "delta_window vs frame lk nk =
     take (min (max (max (case nk of None \<Rightarrow> 0 | Some s \<Rightarrow> ptsIndex s) (ptsIndex frame))
                  (ptsIndex lk + 20)) (length vs - 1) - ptsIndex lk)
       (drop (ptsIndex lk) vs)"
proof -
  define e where "e = min (max (max (case nk of None \<Rightarrow> 0 | Some s \<Rightarrow> ptsIndex s) (ptsIndex frame))
                  (ptsIndex lk + 20)) (length vs - 1)"
  from assms have "min (max (max (case nk of None \<Rightarrow> 0 | Some nk \<Rightarrow> int (ptsIndex nk))
                        (int (ptsIndex frame)))
                   (int (ptsIndex lk) + 20)) (int (length vs) - 1) = int e"
    unfolding e_def by (cases vs; cases nk) simp_all
  then show ?thesis
    unfolding e_def [symmetric]
    by (simp add: delta_window_def Let_def MIN_DECODER_QUEUE_SIZE_def slice_int)
qed

lemma findLast_snoc: "findLast P (xs @ [x]) = (if P x then Some x else findLast P xs)"
  by (simp add: findLast_def)

lemma findLast_Some:
  "findLast P xs = Some x \<Longrightarrow>
   \<exists>k<length xs. x = xs ! k \<and> P x \<and> (\<forall>j. k < j \<and> j < length xs \<longrightarrow> \<not> P (xs ! j))"
proof (induction xs rule: rev_induct)
  case Nil
  then show ?case by (simp add: findLast_def)
next
  case (snoc y ys)
  show ?case
  proof (cases "P y")
    case True
    with snoc.prems have "x = y" by (simp add: findLast_snoc)
    with True show ?thesis
      by (intro exI [of _ "length ys"]) auto
  next
    case False
    with snoc.prems have "findLast P ys = Some x" by (simp add: findLast_snoc)
    with snoc.IH obtain k where k: "k < length ys" "x = ys ! k" "P x"
        "\<forall>j. k < j \<and> j < length ys \<longrightarrow> \<not> P (ys ! j)"
      by blast
    have "\<not> P ((ys @ [y]) ! j)" if "k < j" "j < length (ys @ [y])" for j
    proof (cases "j < length ys")
      case True
      with k(4) that(1) show ?thesis by (simp add: nth_append)
    next
      case False
      with that(2) have "j = length ys" by simp
      with \<open>\<not> P y\<close> show ?thesis by simp
    qed
    with k(1,2,3) show ?thesis
      by (intro exI [of _ k]) (simp add: nth_append)
  qed
qed

lemma seek_result_indexed:
  assumes "numbered (samples trak)" and "videoTrak d = Some trak"
    and "set window \<subseteq> set (index_samples (samples trak))"
  shows "\<exists>bufs d'. seek_result frame window d =
     (Inr \<lparr>seek_ptsIndex = int (ptsIndex frame), seek_dtsIndex = int (dtsIndex frame),
           seek_samples = map (populate bufs) (sort_key dts window)\<rparr>, d')"
proof (cases "window = []")
  case True
  then show ?thesis
    by (simp add: seek_result_def bulkFetchSampleData_def)
next
  case False
  with assms show ?thesis
    by (auto simp add: seek_result_def bulkFetchSampleData_indexed Let_def)
qed

lemma sort_key_least_first:
  assumes "\<forall>y\<in>set xs. f x \<le> f y"
  shows "sort_key f (x # xs) = x # sort_key f xs"
  using assms by (simp add: insort_is_Cons)

lemma seek_result_Inr:
  assumes "seek_result frame w d = (Inr r, d')"
  shows "seek_ptsIndex r = int (ptsIndex frame) \<and> seek_dtsIndex r = int (dtsIndex frame) \<and>
         bulkFetchSampleData w d = (Inr (seek_samples r), d')"
  using assms by (auto simp add: seek_result_def split: prod.splits sum.splits)

lemma drop_index_samples_ptsIndex:
  assumes "s \<in> set (drop a (index_samples xs))"
  shows "a \<le> ptsIndex s"
proof -
  from assms obtain j where j: "j < length (drop a (index_samples xs))"
      "s = drop a (index_samples xs) ! j"
    by (auto simp add: in_set_conv_nth)
  then have "s = index_samples xs ! (a + j)" by simp
  moreover from j(1) have "a + j < length xs" by simp
  ultimately show ?thesis by (simp add: nth_index_samples)
qed

lemma sync_window_subset: "set (sync_window vs (int p)) \<subseteq> set vs"
proof (cases "vs = []")
  case True
  then show ?thesis by (simp add: sync_window_def slice_def)
next
  case False
  show ?thesis
    unfolding sync_window_nat [OF False]
    using set_take_subset set_drop_subset by fast
qed

lemma delta_window_subset: "set (delta_window vs frame lk nk) \<subseteq> set vs"
proof (cases "vs = []")
  case True
  then show ?thesis by (simp add: delta_window_def slice_def)
next
  case False
  show ?thesis
    unfolding delta_window_nat [OF False]
    using set_take_subset set_drop_subset by fast
qed

lemma seek_result_view:
  assumes "indexed trak d" and "set w \<subseteq> set (videoSamples d)"
  shows "map_sum id window_view (fst (seek_result frame w (d\<lparr>buffers := []\<rparr>))) =
     Inr (int (ptsIndex frame), map (\<lambda>s. (ptsIndex s, is_sync s)) (sort_key dts w))"
proof -
  from assms have "numbered (samples trak)" "videoTrak (d\<lparr>buffers := []\<rparr>) = Some trak"
      "set w \<subseteq> set (index_samples (samples trak))"
    by (simp_all add: indexed_def)
  from seek_result_indexed [OF this, of frame] obtain bufs d''
    where "seek_result frame w (d\<lparr>buffers := []\<rparr>) =
      (Inr \<lparr>seek_ptsIndex = int (ptsIndex frame), seek_dtsIndex = int (dtsIndex frame),
            seek_samples = map (populate bufs) (sort_key dts w)\<rparr>, d'')"
    by blast
  then show ?thesis
    by (simp add: window_view_def o_def)
qed

lemma seek_view:
  assumes "indexed trak d" and "videoSamples d \<noteq> []"
  shows "map_sum id window_view (fst (seek t d)) =
     (case find (sample_matches (firstFramePtsOffsetMs d) t) (videoSamples d) of
        None \<Rightarrow> Inr (- 1, [])
      | Some frame \<Rightarrow>
          if is_sync frame
          then Inr (int (ptsIndex frame),
                 map (\<lambda>s. (ptsIndex s, is_sync s))
                   (sort_key dts (sync_window (videoSamples d) (int (ptsIndex frame)))))
          else
            (case findLast is_sync (take (ptsIndex frame) (videoSamples d)) of
               None \<Rightarrow> Inl (SeekNoKeyframe t)
             | Some lk \<Rightarrow>
                 Inr (int (ptsIndex frame),
                   map (\<lambda>s. (ptsIndex s, is_sync s))
                     (sort_key dts
                        (delta_window (videoSamples d) frame lk
                           (find is_sync (drop (ptsIndex frame) (videoSamples d))))))))"
  by (simp add: seek_indexed [OF assms] window_view_def
      seek_result_view [OF assms(1) sync_window_subset]
      seek_result_view [OF assms(1) delta_window_subset]
      split: option.splits)

lemma seek_no_match:
  assumes "videoSamples d \<noteq> []"
    and "\<forall>s\<in>set (videoSamples d). \<not> sample_matches (firstFramePtsOffsetMs d) t s"
  shows "seek t d =
     (Inr \<lparr>seek_ptsIndex = - 1, seek_dtsIndex = - 1, seek_samples = []\<rparr>, d\<lparr>buffers := []\<rparr>)"
proof -
  from assms(2) have "find (sample_matches (firstFramePtsOffsetMs d) t) (videoSamples d) = None"
    by (simp add: find_None_iff)
  with assms(1) show ?thesis
    by (simp add: seek_def timestampMsToPtsIndex_def Let_def)
qed

lemma numbered_three: "numbered three_frames"
  by (simp add: numbered_def three_frames_def upt_rec)

lemma index_three: "index_samples three_frames =
   [with_index (demo_frame 0 0 0 1000 True) 0, with_index (demo_frame 1 1000 1000 33 False) 1,
    with_index (demo_frame 2 1033 1033 33 False) 2]"
  by (simp add: index_samples_def three_frames_def upt_rec numeral_2_eq_2)

lemma three_nonempty: "three_frames \<noteq> []"
  by (simp add: three_frames_def)

lemmas three_fields =
  demo_parse_fields [OF three_nonempty, where bytes = "demo_file 30" and supported = True,
    folded three_parsed_def, unfolded index_three]

lemma indexed_three: "indexed (demo_trak three_frames) three_parsed"
  unfolding three_parsed_def by (rule indexed_demo [OF numbered_three])

lemma three_samples_nonempty: "videoSamples three_parsed \<noteq> []"
  by (simp add: three_fields)

lemma index_samples_sorted:
  assumes "sorted (map cts (map f [0..<n]))"
  shows "index_samples (map f [0..<n]) = map (\<lambda>i. with_index (f i) i) [0..<n]"
proof -
  from assms have "sort_key cts (map f [0..<n]) = map f [0..<n]"
    by (rule sort_key_id_if_sorted)
  then show ?thesis
    by (intro nth_equalityI) (simp_all add: nth_index_samples)
qed

lemma index_gop13: "index_samples gop13 = map (\<lambda>i. with_index (gop_frame i) i) [0..<13]"
  unfolding gop13_def
  by (rule index_samples_sorted) (simp add: gop_frame_def upt_rec)

lemma numbered_gop13: "numbered gop13"
  by (simp add: numbered_def gop13_def gop_frame_def o_def map_idI)

lemma indexed_gop13: "indexed (demo_trak gop13) gop13_parsed"
  unfolding gop13_parsed_def by (rule indexed_demo [OF numbered_gop13])

lemma gop13_nonempty: "gop13 \<noteq> []"
  by (simp add: gop13_def upt_rec)

lemmas gop13_fields =
  demo_parse_fields [OF gop13_nonempty, where bytes = "demo_file 130" and supported = True,
    folded gop13_parsed_def, unfolded index_gop13]

lemma gop13_samples_nonempty: "videoSamples gop13_parsed \<noteq> []"
  by (simp add: gop13_fields upt_rec)

lemma seek_three_1016:
  "seek 1016 three_parsed =
     (Inr three_window,
      three_parsed\<lparr>reads := [(0, 20)], buffers := [(0, blob_slice (demo_file 30) 0 20)]\<rparr>)"
proof -
  let ?w = "[with_index (demo_frame 0 0 0 1000 True) 0, with_index (demo_frame 1 1000 1000 33 False) 1]"
  have "seek 1016 three_parsed =
      seek_result (with_index (demo_frame 1 1000 1000 33 False) 1) ?w (three_parsed\<lparr>buffers := []\<rparr>)"
    by (simp add: seek_indexed [OF indexed_three three_samples_nonempty] three_fields
        sample_matches_def secToMs_def findLast_def delta_window_nat)
  moreover have "bulkFetchSampleData ?w (three_parsed\<lparr>buffers := []\<rparr>) =
      (Inr (map (loaded (demo_file 30)) ?w),
       three_parsed\<lparr>reads := [(0, 20)], buffers := [(0, blob_slice (demo_file 30) 0 20)]\<rparr>)"
    using bulkFetchSampleData_loaded [OF indexed_three, of ?w]
    by (simp add: three_fields)
  ultimately show ?thesis
    by (simp add: seek_result_def three_window_def)
qed

text \<open>
  Claim C1. The lookup on the file whose samples span 0 to 1000 ms, 1000 to 1033 ms and
  1033 to 1066 ms. The queries 999.999 ms and 1032.999 ms give the sample whose interval
  contains them (0 and 1). The query 1000 ms, the start of sample 1, gives sample 0, and
  the query 1033 ms, the start of sample 2, gives sample 1: the test of the loop,
  \<open>ctsMs <= timestampMs && ctsMs + durationMs >= timestampMs\<close>, admits the end point of an
  interval, and the loop returns the first sample that passes it.
\<close>

theorem timestamp_lookup_at_boundaries:
  "map (\<lambda>s. (cts s, duration s, timescale s)) (videoSamples three_parsed) =
     [(0, 1000, 1000), (1000, 33, 1000), (1033, 33, 1000)] \<and>
   timestampMsToPtsIndex (999999 / 1000) three_parsed = 0 \<and>
   timestampMsToPtsIndex 1000 three_parsed = 0 \<and>
   timestampMsToPtsIndex (1032999 / 1000) three_parsed = 1 \<and>
   timestampMsToPtsIndex 1033 three_parsed = 1"
  by (simp add: timestampMsToPtsIndex_def three_fields sample_matches_def secToMs_def)

text \<open>
  A query that no sample covers, on the same file: \<open>seek\<close> returns a result, with no
  samples and both indices - 1.
\<close>

theorem unmatched_seek_returns_normally:
  "fst (seek 2000 three_parsed) =
     Inr \<lparr>seek_ptsIndex = - 1, seek_dtsIndex = - 1, seek_samples = []\<rparr> \<and>
   filter (sample_matches (firstFramePtsOffsetMs three_parsed) 2000) (videoSamples three_parsed) = []"
  by (simp add: seek_no_match three_fields sample_matches_def secToMs_def)

text \<open>
  Claim C4, as amended. When video samples have been extracted and no sample passes the
  test of the lookup for the timestamp (none has it in its offset-corrected presentation
  interval, end points included), \<open>seek\<close> does not fail: it returns the result with no
  samples and with \<open>ptsIndex\<close> and \<open>dtsIndex\<close> - 1, having cleaned the buffers and
  read nothing.
\<close>

theorem seek_without_match:
  assumes "videoSamples d \<noteq> []"
    and "\<forall>s\<in>set (videoSamples d). \<not> sample_matches (firstFramePtsOffsetMs d) t s"
  shows "seek t d =
     (Inr \<lparr>seek_ptsIndex = - 1, seek_dtsIndex = - 1, seek_samples = []\<rparr>, d\<lparr>buffers := []\<rparr>)"
  using assms by (rule seek_no_match)

theorem seek_without_match_witness:
  "videoSamples three_parsed \<noteq> [] \<and>
   seek 5000 three_parsed =
     (Inr \<lparr>seek_ptsIndex = - 1, seek_dtsIndex = - 1, seek_samples = []\<rparr>,
      three_parsed\<lparr>buffers := []\<rparr>) \<and>
   reads (snd (seek 5000 three_parsed)) = []"
  using seek_without_match [of three_parsed 5000]
  by (simp add: three_fields sample_matches_def secToMs_def)

text \<open>
  The file with key frames at 0 and 11, and a timestamp within sample 11: the target is a
  key frame, the window is the samples 1 to 11, and its first sample is not a sync sample.
\<close>

theorem seek_to_keyframe_window_starts_before_it:
  "map_sum id window_view (fst (seek 11500 gop13_parsed)) =
     Inr (11, [(1, False), (2, False), (3, False), (4, False), (5, False), (6, False),
               (7, False), (8, False), (9, False), (10, False), (11, True)])"
  by (simp add: seek_view [OF indexed_gop13 gop13_samples_nonempty] gop13_fields
      sample_matches_def secToMs_def sync_window_numeral upt_rec gop_frame_def)

text \<open>
  The two branches of a successful \<open>seek\<close>: the window for a target that is not a sync
  sample, and the one for a target that is.
\<close>

lemma seek_delta_target_window:
  assumes "indexed trak d"
    and "seek t d = (Inr r, d')"
    and "seek_ptsIndex r \<noteq> - 1"
    and "\<not> is_sync (videoSamples d ! nat (seek_ptsIndex r))"
  shows "\<exists>w\<in>set (seek_samples r).
           is_sync w \<and> int (ptsIndex w) < seek_ptsIndex r \<and>
           (\<forall>j. ptsIndex w < j \<and> int j < seek_ptsIndex r \<longrightarrow> \<not> is_sync (videoSamples d ! j)) \<and>
           (\<forall>s\<in>set (seek_samples r). ptsIndex w \<le> ptsIndex s) \<and>
           ((\<forall>s\<in>set (seek_samples r). dts w \<le> dts s) \<longrightarrow> hd (seek_samples r) = w)"
proof -
  define vs where "vs = videoSamples d"
  define d1 where "d1 = d\<lparr>buffers := []\<rparr>"
  from assms(1) have num: "numbered (samples trak)" and trak: "videoTrak d1 = Some trak"
    and vs: "vs = index_samples (samples trak)"
    by (simp_all add: indexed_def vs_def d1_def)
  from assms(2) have nonempty: "vs \<noteq> []"
    by (auto simp add: seek_def vs_def)
  note seek = seek_indexed [OF assms(1), of t, folded vs_def d1_def, OF nonempty]
  from assms(2,3) seek obtain frame
    where frame: "find (sample_matches (firstFramePtsOffsetMs d) t) vs = Some frame"
    by (cases "find (sample_matches (firstFramePtsOffsetMs d) t) vs") auto
  define p where "p = ptsIndex frame"
  from frame have p: "p < length vs" "vs ! p = frame"
    using find_index_samples [of _ "samples trak" frame] by (simp_all add: vs p_def)
  have sync: "\<not> is_sync frame"
  proof
    assume "is_sync frame"
    with assms(2) seek frame
    have "seek_result frame (sync_window vs (int (ptsIndex frame))) d1 = (Inr r, d')"
      by simp
    then have "seek_ptsIndex r = int p"
      by (simp add: seek_result_Inr p_def)
    with assms(4) p(2) \<open>is_sync frame\<close> show False
      by (simp add: vs_def)
  qed
  with assms(2) seek frame obtain lk
    where lk: "findLast is_sync (take p vs) = Some lk"
    by (cases "findLast is_sync (take p vs)") (auto simp add: p_def)
  define w where "w = delta_window vs frame lk (find is_sync (drop p vs))"
  from assms(2) seek frame sync lk have res: "seek_result frame w d1 = (Inr r, d')"
    by (simp add: p_def w_def)
  then have r_pts: "seek_ptsIndex r = int p"
    by (simp add: seek_result_Inr p_def)
  from findLast_Some [OF lk] p(1) obtain k where k: "k < p" "lk = vs ! k" "is_sync lk"
      "\<forall>j. k < j \<and> j < p \<longrightarrow> \<not> is_sync (vs ! j)"
    by auto
  from k(1,2) p(1) have lk_pts: "ptsIndex lk = k"
    by (simp add: vs nth_index_samples)
  define e where "e = min (max (max (case find is_sync (drop p vs) of None \<Rightarrow> 0 | Some s \<Rightarrow> ptsIndex s) p)
                  (k + 20)) (length vs - 1)"
  have "p \<le> max (max (case find is_sync (drop p vs) of None \<Rightarrow> 0 | Some s \<Rightarrow> ptsIndex s) p)
                  (k + 20)"
    by (simp add: le_max_iff_disj)
  moreover from p(1) have "p \<le> length vs - 1" by arith
  ultimately have "p \<le> e" by (simp add: e_def)
  with k(1) obtain m where m: "e - k = Suc m" by (cases "e - k") simp_all
  define tail where "tail = take m (drop (Suc k) vs)"
  from k(1) p(1) have "drop k vs = vs ! k # drop (Suc k) vs"
    by (simp add: Cons_nth_drop_Suc)
  moreover have "w = take (e - k) (drop k vs)"
    unfolding w_def e_def delta_window_nat [OF nonempty] lk_pts p_def ..
  ultimately have w_eq: "w = lk # tail"
    by (simp add: m tail_def k(2))
  have tail_pts: "k < ptsIndex s" if "s \<in> set tail" for s
  proof -
    from that have "s \<in> set (drop (Suc k) (index_samples (samples trak)))"
      unfolding tail_def vs by (rule in_set_takeD)
    then have "Suc k \<le> ptsIndex s" by (rule drop_index_samples_ptsIndex)
    then show ?thesis by simp
  qed
  have "set tail \<subseteq> set vs"
    unfolding tail_def using set_take_subset set_drop_subset by fast
  moreover from k(1,2) p(1) have "lk \<in> set vs" by simp
  ultimately have sub: "set w \<subseteq> set (index_samples (samples trak))"
    by (simp add: w_eq vs)
  from seek_result_indexed [OF num trak sub, of frame] obtain bufs d''
    where "seek_result frame w d1 =
      (Inr \<lparr>seek_ptsIndex = int (ptsIndex frame), seek_dtsIndex = int (dtsIndex frame),
            seek_samples = map (populate bufs) (sort_key dts w)\<rparr>, d'')"
    by blast
  with res have "r = \<lparr>seek_ptsIndex = int (ptsIndex frame), seek_dtsIndex = int (dtsIndex frame),
            seek_samples = map (populate bufs) (sort_key dts w)\<rparr>"
    by simp
  then have samples: "seek_samples r = map (populate bufs) (sort_key dts w)"
    by simp
  have set_eq: "set (seek_samples r) = populate bufs ` set w"
    unfolding samples by simp
  let ?w = "populate bufs lk"
  have mem: "?w \<in> set (seek_samples r)"
    by (simp add: set_eq w_eq)
  have a: "is_sync ?w" by (simp add: k(3))
  have b: "int (ptsIndex ?w) < seek_ptsIndex r"
    by (simp add: r_pts lk_pts k(1))
  have c: "\<forall>j. ptsIndex ?w < j \<and> int j < seek_ptsIndex r \<longrightarrow> \<not> is_sync (videoSamples d ! j)"
    using k(4) by (simp add: r_pts lk_pts vs_def)
  have d: "\<forall>s\<in>set (seek_samples r). ptsIndex ?w \<le> ptsIndex s"
    using tail_pts by (auto simp add: set_eq w_eq lk_pts intro: less_imp_le)
  have e: "hd (seek_samples r) = ?w" if "\<forall>s\<in>set (seek_samples r). dts ?w \<le> dts s"
  proof -
    from that have "\<forall>y\<in>set tail. dts lk \<le> dts y"
      by (simp add: set_eq w_eq)
    then have "sort_key dts w = lk # sort_key dts tail"
      unfolding w_eq by (rule sort_key_least_first)
    then show ?thesis by (simp add: samples)
  qed
  from mem a b c d e show ?thesis by blast
qed

lemma seek_sync_target_window:
  assumes "indexed trak d"
    and "seek t d = (Inr r, d')"
    and "seek_ptsIndex r \<noteq> - 1"
    and "is_sync (videoSamples d ! nat (seek_ptsIndex r))"
  shows "map (\<lambda>s. s\<lparr>data := None\<rparr>) (seek_samples r) =
           map (\<lambda>s. s\<lparr>data := None\<rparr>)
             (sort_key dts
                (take (min (nat (seek_ptsIndex r) - 10 + 20) (length (videoSamples d) - 1)
                         - (nat (seek_ptsIndex r) - 10))
                   (drop (nat (seek_ptsIndex r) - 10) (videoSamples d))))"
proof -
  define vs where "vs = videoSamples d"
  define d1 where "d1 = d\<lparr>buffers := []\<rparr>"
  from assms(1) have num: "numbered (samples trak)" and trak: "videoTrak d1 = Some trak"
    and vs: "vs = index_samples (samples trak)"
    by (simp_all add: indexed_def vs_def d1_def)
  from assms(2) have nonempty: "vs \<noteq> []"
    by (auto simp add: seek_def vs_def)
  note seek = seek_indexed [OF assms(1), of t, folded vs_def d1_def, OF nonempty]
  from assms(2,3) seek obtain frame
    where frame: "find (sample_matches (firstFramePtsOffsetMs d) t) vs = Some frame"
    by (cases "find (sample_matches (firstFramePtsOffsetMs d) t) vs") auto
  define p where "p = ptsIndex frame"
  from frame have p: "p < length vs" "vs ! p = frame"
    using find_index_samples [of _ "samples trak" frame] by (simp_all add: vs p_def)
  have sync: "is_sync frame"
  proof (rule ccontr)
    assume no: "\<not> is_sync frame"
    with assms(2) seek frame obtain lk
      where lk: "findLast is_sync (take p vs) = Some lk"
      by (cases "findLast is_sync (take p vs)") (auto simp add: p_def)
    with assms(2) seek frame no
    have "seek_result frame (delta_window vs frame lk (find is_sync (drop p vs))) d1 = (Inr r, d')"
      by (simp add: p_def)
    then have "seek_ptsIndex r = int p"
      by (simp add: seek_result_Inr p_def)
    with assms(4) p(2) no show False
      by (simp add: vs_def)
  qed
  define w where "w = sync_window vs (int p)"
  from assms(2) seek frame sync have res: "seek_result frame w d1 = (Inr r, d')"
    by (simp add: p_def w_def)
  then have r_pts: "seek_ptsIndex r = int p"
    by (simp add: seek_result_Inr p_def)
  have sub: "set w \<subseteq> set (index_samples (samples trak))"
    unfolding w_def vs [symmetric] by (rule sync_window_subset)
  from seek_result_indexed [OF num trak sub, of frame] obtain bufs d''
    where "seek_result frame w d1 =
      (Inr \<lparr>seek_ptsIndex = int (ptsIndex frame), seek_dtsIndex = int (dtsIndex frame),
            seek_samples = map (populate bufs) (sort_key dts w)\<rparr>, d'')"
    by blast
  with res have "r = \<lparr>seek_ptsIndex = int (ptsIndex frame), seek_dtsIndex = int (dtsIndex frame),
            seek_samples = map (populate bufs) (sort_key dts w)\<rparr>"
    by simp
  then have samples: "seek_samples r = map (populate bufs) (sort_key dts w)"
    by simp
  have "map (\<lambda>s. s\<lparr>data := None\<rparr>) (seek_samples r) = map (\<lambda>s. s\<lparr>data := None\<rparr>) (sort_key dts w)"
    unfolding samples by (simp add: populate_data_only)
  moreover have "w = take (min (p - 10 + 20) (length vs - 1) - (p - 10)) (drop (p - 10) vs)"
    unfolding w_def by (rule sync_window_nat [OF nonempty])
  ultimately show ?thesis
    by (simp add: r_pts vs_def)
qed

lemma same_but_data_fields:
  assumes "map (\<lambda>s. s\<lparr>data := None\<rparr>) xs = map (\<lambda>s. s\<lparr>data := None\<rparr>) ys"
  shows "map dts xs = map dts ys" and "map ptsIndex xs = map ptsIndex ys"
  using assms [THEN arg_cong, of "map dts"] assms [THEN arg_cong, of "map ptsIndex"]
  by (simp_all add: o_def)

lemma ptsIndex_run:
  assumes "a \<le> e" and "e \<le> length xs"
  shows "ptsIndex ` set (take (e - a) (drop a (index_samples xs))) = {a..<e}"
proof -
  have "map ptsIndex (take (e - a) (drop a (index_samples xs))) =
      take (e - a) (drop a [0..<length xs])"
    unfolding take_map [symmetric] drop_map [symmetric] map_ptsIndex_index_samples ..
  also from assms have "\<dots> = [a..<a + (e - a)]"
    by (simp add: take_upt)
  also from assms have "\<dots> = [a..<e]"
    by simp
  finally have "set (map ptsIndex (take (e - a) (drop a (index_samples xs)))) = set [a..<e]"
    by simp
  then show ?thesis by simp
qed


lemma seek_gop13_11500:
  "seek 11500 gop13_parsed =
     (Inr gop13_window,
      gop13_parsed\<lparr>reads := [(10, 120)], buffers := [(10, blob_slice (demo_file 130) 10 120)]\<rparr>)"
proof -
  let ?w = "map (\<lambda>i. with_index (gop_frame i) i) [1..<12]"
  have "seek 11500 gop13_parsed =
      seek_result (?w ! 10) ?w (gop13_parsed\<lparr>buffers := []\<rparr>)"
    by (simp add: seek_indexed [OF indexed_gop13 gop13_samples_nonempty] gop13_fields
        sample_matches_def secToMs_def sync_window_numeral upt_rec gop_frame_def)
  moreover have "bulkFetchSampleData ?w (gop13_parsed\<lparr>buffers := []\<rparr>) =
      (Inr (map (loaded (demo_file 130)) ?w),
       gop13_parsed\<lparr>reads := [(10, 120)], buffers := [(10, blob_slice (demo_file 130) 10 120)]\<rparr>)"
    using bulkFetchSampleData_loaded [OF indexed_gop13, of ?w]
    by (simp add: gop13_fields upt_rec gop_frame_def)
  ultimately show ?thesis
    by (simp add: seek_result_def gop13_window_def gop_frame_def o_def)
qed

text \<open>
  Claim C2, as amended. Let \<open>seek\<close> succeed on a demuxer that has indexed its track and
  resolve a target frame. When the target is not a sync sample, the window contains the
  nearest sync sample presented before the target; no sample of the window is presented
  before it; and it is the first sample of the window whenever no sample of the window has
  a smaller decode timestamp. When the target is itself a sync sample, the window consists
  of the samples at the consecutive presentation indices from \<open>max(0, target - 10)\<close> up
  to, and excluding, an end index between \<open>min(start + 20, count - 1)\<close> and
  \<open>min(start + 20, count)\<close>, so it contains the target whenever the target is not the
  last sample. It is returned sorted by decode timestamp (ties in presentation order),
  so its first sample is the one of least decode timestamp among them, whether or not that
  is a sync sample.
\<close>

theorem seek_window_and_keyframe:
  assumes "indexed trak d"
    and "fst (seek t d) = Inr r"
    and "seek_ptsIndex r \<noteq> - 1"
  shows "(\<not> is_sync (videoSamples d ! nat (seek_ptsIndex r)) \<longrightarrow>
           (\<exists>w\<in>set (seek_samples r).
              is_sync w \<and> int (ptsIndex w) < seek_ptsIndex r \<and>
              (\<forall>j. ptsIndex w < j \<and> int j < seek_ptsIndex r \<longrightarrow> \<not> is_sync (videoSamples d ! j)) \<and>
              (\<forall>s\<in>set (seek_samples r). ptsIndex w \<le> ptsIndex s) \<and>
              ((\<forall>s\<in>set (seek_samples r). dts w \<le> dts s) \<longrightarrow> hd (seek_samples r) = w))) \<and>
         (is_sync (videoSamples d ! nat (seek_ptsIndex r)) \<longrightarrow>
           (\<exists>e. min (nat (seek_ptsIndex r - 10) + 20) (length (videoSamples d) - 1) \<le> e \<and>
                e \<le> min (nat (seek_ptsIndex r - 10) + 20) (length (videoSamples d)) \<and>
                map (\<lambda>s. s\<lparr>data := None\<rparr>) (seek_samples r) =
                  map (\<lambda>s. s\<lparr>data := None\<rparr>)
                    (sort_key dts
                       (take (e - nat (seek_ptsIndex r - 10))
                          (drop (nat (seek_ptsIndex r - 10)) (videoSamples d))))) \<and>
           sorted (map dts (seek_samples r)) \<and>
           (seek_ptsIndex r + 1 < int (length (videoSamples d)) \<longrightarrow>
              (\<exists>s\<in>set (seek_samples r). int (ptsIndex s) = seek_ptsIndex r)))"
proof (intro conjI impI)
  from assms(2) have seek: "seek t d = (Inr r, snd (seek t d))"
    by (simp add: prod_eq_iff)
  {
    assume "\<not> is_sync (videoSamples d ! nat (seek_ptsIndex r))"
    with assms(1) seek assms(3)
    show "\<exists>w\<in>set (seek_samples r).
              is_sync w \<and> int (ptsIndex w) < seek_ptsIndex r \<and>
              (\<forall>j. ptsIndex w < j \<and> int j < seek_ptsIndex r \<longrightarrow> \<not> is_sync (videoSamples d ! j)) \<and>
              (\<forall>s\<in>set (seek_samples r). ptsIndex w \<le> ptsIndex s) \<and>
              ((\<forall>s\<in>set (seek_samples r). dts w \<le> dts s) \<longrightarrow> hd (seek_samples r) = w)"
      by (rule seek_delta_target_window)
  }
  assume sync: "is_sync (videoSamples d ! nat (seek_ptsIndex r))"
  define vs where "vs = videoSamples d"
  define p where "p = nat (seek_ptsIndex r)"
  define a where "a = p - 10"
  define e where "e = min (a + 20) (length vs - 1)"
  define run where "run = take (e - a) (drop a vs)"
  from assms(1) have vs: "vs = index_samples (samples trak)"
    by (simp add: indexed_def vs_def)
  from assms(2) have nonempty: "vs \<noteq> []"
    by (auto simp add: seek_def vs_def)
  have target: "0 \<le> seek_ptsIndex r \<and> seek_ptsIndex r < int (length vs)"
  proof -
    from assms(2,3) seek_indexed [OF assms(1), of t] nonempty obtain frame
      where frame: "find (sample_matches (firstFramePtsOffsetMs d) t) vs = Some frame"
      by (cases "find (sample_matches (firstFramePtsOffsetMs d) t) vs") (auto simp add: vs_def)
    then have "ptsIndex frame < length vs"
      using find_index_samples [of _ "samples trak" frame] by (simp add: vs)
    moreover from assms(2) seek_indexed [OF assms(1), of t] nonempty frame
    have "seek_ptsIndex r = int (ptsIndex frame)"
      by (auto simp add: vs_def seek_result_def split: if_splits option.splits prod.splits sum.splits)
    ultimately show ?thesis by simp
  qed
  then have p_int: "seek_ptsIndex r = int p"
    by (simp add: p_def)
  with target have p_len: "p < length vs"
    by simp
  have pa: "nat (seek_ptsIndex r - 10) = a"
    by (simp add: p_int a_def)
  from seek_sync_target_window [OF assms(1) seek assms(3) sync]
  have samples: "map (\<lambda>s. s\<lparr>data := None\<rparr>) (seek_samples r) =
      map (\<lambda>s. s\<lparr>data := None\<rparr>) (sort_key dts run)"
    by (simp add: run_def e_def a_def p_def vs_def)
  have "min (a + 20) (length vs - 1) \<le> e \<and> e \<le> min (a + 20) (length vs)"
    by (simp add: e_def)
  with samples
  show "\<exists>e. min (nat (seek_ptsIndex r - 10) + 20) (length (videoSamples d) - 1) \<le> e \<and>
                e \<le> min (nat (seek_ptsIndex r - 10) + 20) (length (videoSamples d)) \<and>
                map (\<lambda>s. s\<lparr>data := None\<rparr>) (seek_samples r) =
                  map (\<lambda>s. s\<lparr>data := None\<rparr>)
                    (sort_key dts
                       (take (e - nat (seek_ptsIndex r - 10))
                          (drop (nat (seek_ptsIndex r - 10)) (videoSamples d))))"
    unfolding pa vs_def [symmetric] run_def by blast
  from same_but_data_fields(1) [OF samples]
  show "sorted (map dts (seek_samples r))"
    by simp
  assume "seek_ptsIndex r + 1 < int (length (videoSamples d))"
  then have "p + 1 < length vs"
    by (simp add: p_int vs_def)
  then have "a \<le> e" "e \<le> length vs" "p \<in> {a..<e}"
    unfolding a_def e_def by auto
  then have "p \<in> ptsIndex ` set run"
    unfolding run_def vs by (simp add: ptsIndex_run)
  also have "ptsIndex ` set run = set (map ptsIndex (sort_key dts run))"
    by simp
  also from same_but_data_fields(2) [OF samples]
  have "\<dots> = set (map ptsIndex (seek_samples r))"
    by simp
  finally show "\<exists>s\<in>set (seek_samples r). int (ptsIndex s) = seek_ptsIndex r"
    by (auto simp add: p_int)
qed

theorem seek_window_and_keyframe_witness:
  "indexed (demo_trak three_frames) three_parsed \<and>
   fst (seek 1016 three_parsed) = Inr three_window \<and>
   seek_ptsIndex three_window = 1 \<and>
   \<not> is_sync (videoSamples three_parsed ! 1) \<and>
   is_sync (hd (seek_samples three_window)) \<and>
   ptsIndex (hd (seek_samples three_window)) = 0 \<and>
   indexed (demo_trak gop13) gop13_parsed \<and>
   fst (seek 11500 gop13_parsed) = Inr gop13_window \<and>
   seek_ptsIndex gop13_window = 11 \<and>
   is_sync (videoSamples gop13_parsed ! 11) \<and>
   map ptsIndex (seek_samples gop13_window) = [1, 2, 3, 4, 5, 6, 7, 8, 9, 10, 11] \<and>
   sorted (map dts (seek_samples gop13_window)) \<and>
   \<not> is_sync (hd (seek_samples gop13_window))"
proof -
  have three: "fst (seek 1016 three_parsed) = Inr three_window"
    by (simp add: seek_three_1016)
  have three_target: "seek_ptsIndex three_window = 1"
    by (simp add: three_window_def)
  have three_delta: "\<not> is_sync (videoSamples three_parsed ! 1)"
    by (simp add: three_fields)
  have gop: "fst (seek 11500 gop13_parsed) = Inr gop13_window"
    by (simp add: seek_gop13_11500)
  have gop_target: "seek_ptsIndex gop13_window = 11"
    by (simp add: gop13_window_def)
  have gop_sync: "is_sync (videoSamples gop13_parsed ! 11)"
    by (simp add: gop13_fields gop_frame_def)
  have three_first: "is_sync (hd (seek_samples three_window)) \<and>
      ptsIndex (hd (seek_samples three_window)) = 0"
    by (simp add: three_window_def)
  have gop_run: "map ptsIndex (seek_samples gop13_window) = [1, 2, 3, 4, 5, 6, 7, 8, 9, 10, 11] \<and>
      \<not> is_sync (hd (seek_samples gop13_window))"
    by (simp add: gop13_window_def upt_rec gop_frame_def)
  from three_target three_delta
  have "\<exists>w\<in>set (seek_samples three_window). is_sync w \<and> int (ptsIndex w) < seek_ptsIndex three_window"
    using seek_window_and_keyframe [OF indexed_three three, THEN conjunct1] by auto
  from gop_target gop_sync
  have "sorted (map dts (seek_samples gop13_window))"
    using seek_window_and_keyframe [OF indexed_gop13 gop, THEN conjunct2] by simp
  with three three_target three_delta three_first gop gop_target gop_sync gop_run
    indexed_three indexed_gop13
  show ?thesis by simp
qed

text \<open>
  Claim C3. \<open>seek\<close> on the file of three samples, the first being the only key frame.
  For a timestamp within sample 1 the window is the samples 0 and 1: two samples, where the
  three samples from the key frame on are fewer than the queue size of 20. For a timestamp
  within sample 2, the last one, the target is 2 and the window is again the samples 0 and
  1, without the target. The end index is clamped to \<open>length - 1\<close> and then used as the
  exclusive end of \<open>slice\<close>.
\<close>

theorem seek_window_misses_last_index:
  "map_sum id window_view (fst (seek 1016 three_parsed)) = Inr (1, [(0, True), (1, False)]) \<and>
   map_sum id window_view (fst (seek 1050 three_parsed)) = Inr (2, [(0, True), (1, False)]) \<and>
   length (videoSamples three_parsed) = 3"
  by (simp add: seek_view [OF indexed_three three_samples_nonempty] three_fields
      sample_matches_def secToMs_def findLast_def delta_window_nat)

section \<open>Parse errors\<close>

lemma onReady_traps_missing_track:
  "videoTracks info = [] \<Longrightarrow>
   error (onReady info supported d) = Some ''mp4 file without video track''"
  by (simp add: onReady_def)

lemma onReady_traps_config_error:
  assumes "videoTracks info = videoTrack # others"
    and "getTrackById d (track_id videoTrack) = Some trak" and "samples trak \<noteq> []"
    and "readVideoDecoderConfig videoTrack d = Inl msg"
  shows "error (onReady info supported d) = Some msg"
proof -
  from assms(3) have "length (index_samples (samples trak)) \<noteq> 0" by simp
  then obtain first rest where "index_samples (samples trak) = first # rest"
    by (cases "index_samples (samples trak)") simp_all
  with assms(1,2,4) show ?thesis
    by (simp add: onReady_def Let_def readVideoDecoderConfig_def)
qed

lemma onReady_traps_unsupported:
  assumes "videoTracks info = videoTrack # others"
    and "getTrackById d (track_id videoTrack) = Some trak" and "samples trak \<noteq> []"
    and "readVideoDecoderConfig videoTrack d = Inr config"
  shows "error (onReady info False d) = Some ''VideoDecoder config not supported''"
proof -
  from assms(3) have "length (index_samples (samples trak)) \<noteq> 0" by simp
  then obtain first rest where "index_samples (samples trak) = first # rest"
    by (cases "index_samples (samples trak)") simp_all
  with assms(1,2,4) show ?thesis
    by (simp add: onReady_def Let_def readVideoDecoderConfig_def)
qed

lemma readVideoDecoderConfig_missing_box:
  assumes "getTrackById d (track_id videoTrack) = Some trak"
    and "stsd_entries trak = Some entries" and "\<forall>entry\<in>set entries. entry = None"
  shows "readVideoDecoderConfig videoTrack d = Inl ''avcC, hvcC, vpcC, or av1C box not found''"
proof -
  from assms(3) have "fold (\<lambda>entry found. case entry of
        Some written \<Rightarrow> Some (drop 8 written) | None \<Rightarrow> found) entries None = None"
    by (induction entries) simp_all
  with assms(1,2) show ?thesis
    by (simp add: readVideoDecoderConfig_def)
qed

lemma same_but_error_fields:
  assumes "d'\<lparr>error := None\<rparr> = d\<lparr>error := None\<rparr>"
  shows "videoTrak d' = videoTrak d" and "buffers d' = buffers d" and "reads d' = reads d"
    and "file_blob d' = file_blob d" and "videoSamples d' = videoSamples d"
    and "firstFramePtsOffsetMs d' = firstFramePtsOffsetMs d"
  using arg_cong [OF assms, of videoTrak] arg_cong [OF assms, of buffers]
    arg_cong [OF assms, of reads] arg_cong [OF assms, of file_blob]
    arg_cong [OF assms, of videoSamples] arg_cong [OF assms, of firstFramePtsOffsetMs]
  by simp_all

lemma fetchSampleData_same:
  assumes "d'\<lparr>error := None\<rparr> = d\<lparr>error := None\<rparr>"
  shows "fst (fetchSampleData s d') = fst (fetchSampleData s d)"
  by (simp add: fetchSampleData_def same_but_error_fields [OF assms]
      split: option.splits sum.splits)

lemma fetchSampleData_Inr:
  "fetchSampleData s d = (Inr v, d') \<Longrightarrow> d' = d"
  by (auto simp add: fetchSampleData_def split: option.splits sum.splits)

lemma fetch_each_same:
  assumes "d'\<lparr>error := None\<rparr> = d\<lparr>error := None\<rparr>"
  shows "fst (fetch_each xs d') = fst (fetch_each xs d)"
proof (induction xs)
  case Nil
  then show ?case by simp
next
  case (Cons s ss)
  obtain res d1 where r: "fetchSampleData s d = (res, d1)"
    by (cases "fetchSampleData s d")
  obtain res2 d2 where r2: "fetchSampleData s d' = (res2, d2)"
    by (cases "fetchSampleData s d'")
  from fetchSampleData_same [OF assms, of s] r r2 have same: "res2 = res"
    by simp
  show ?case
  proof (cases res)
    case (Inl e)
    with r r2 same show ?thesis by simp
  next
    case (Inr v)
    with r r2 same have d: "d1 = d" "d2 = d'"
      using fetchSampleData_Inr by blast+
    obtain a b where f: "fetch_each ss d = (a, b)"
      by (cases "fetch_each ss d")
    obtain a2 b2 where f2: "fetch_each ss d' = (a2, b2)"
      by (cases "fetch_each ss d'")
    from Cons.IH f f2 have "a2 = a" by simp
    with r r2 same Inr d f f2 show ?thesis
      by (cases a) simp_all
  qed
qed

lemma bulkFetchSampleData_same:
  assumes "d'\<lparr>error := None\<rparr> = d\<lparr>error := None\<rparr>"
  shows "fst (bulkFetchSampleData xs d') = fst (bulkFetchSampleData xs d)"
proof (cases "xs = []")
  case True
  then show ?thesis by (simp add: bulkFetchSampleData_def)
next
  case False
  from assms have "(d'\<lparr>reads := r, buffers := b\<rparr>)\<lparr>error := None\<rparr> =
      (d\<lparr>reads := r, buffers := b\<rparr>)\<lparr>error := None\<rparr>" for r b
    by (cases d, cases d') simp
  from fetch_each_same [OF this] False show ?thesis
    by (simp add: bulkFetchSampleData_def Let_def same_but_error_fields [OF assms])
qed

lemma seek_result_fst:
  "fst (seek_result frame w d) =
     map_sum id (\<lambda>fetched. \<lparr>seek_ptsIndex = int (ptsIndex frame),
        seek_dtsIndex = int (dtsIndex frame), seek_samples = fetched\<rparr>)
       (fst (bulkFetchSampleData w d))"
  by (simp add: seek_result_def split: prod.splits sum.splits)

lemma seek_error:
  "fst (seek t (d\<lparr>error := x\<rparr>)) = fst (seek t d)"
proof -
  have "(d\<lparr>error := x, buffers := []\<rparr>)\<lparr>error := None\<rparr> = (d\<lparr>buffers := []\<rparr>)\<lparr>error := None\<rparr>"
    by simp
  note same = bulkFetchSampleData_same [OF this]
  show ?thesis
    by (simp add: seek_def Let_def seek_result_fst same timestampMsToPtsIndex_def
        split: option.splits)
qed

lemma readAllSamples_error:
  "fst (readAllSamples (d\<lparr>error := x\<rparr>)) = fst (readAllSamples d)"
proof -
  have "(d\<lparr>error := x, buffers := []\<rparr>)\<lparr>error := None\<rparr> = (d\<lparr>buffers := []\<rparr>)\<lparr>error := None\<rparr>"
    by simp
  from bulkFetchSampleData_same [OF this] show ?thesis
    by (simp add: readAllSamples_def)
qed

lemma fetchSampleData_keeps_error:
  "error d = Some e \<Longrightarrow> \<exists>e'. error (snd (fetchSampleData s d)) = Some e'"
  by (simp add: fetchSampleData_def split: option.splits sum.splits)

lemma fetch_each_keeps_error:
  "error d = Some e \<Longrightarrow> \<exists>e'. error (snd (fetch_each xs d)) = Some e'"
proof (induction xs arbitrary: d e)
  case Nil
  then show ?case by simp
next
  case (Cons s ss)
  obtain res d' where r: "fetchSampleData s d = (res, d')"
    by (cases "fetchSampleData s d")
  with fetchSampleData_keeps_error [OF Cons.prems, of s] obtain e' where e': "error d' = Some e'"
    by auto
  show ?case
  proof (cases res)
    case (Inl x)
    with r e' show ?thesis by simp
  next
    case (Inr v)
    obtain res2 d2 where r2: "fetch_each ss d' = (res2, d2)"
      by (cases "fetch_each ss d'")
    with Cons.IH [OF e'] have "\<exists>e'. error d2 = Some e'" by simp
    with r r2 Inr show ?thesis
      by (cases res2) simp_all
  qed
qed

lemma bulkFetchSampleData_keeps_error:
  "error d = Some e \<Longrightarrow> \<exists>e'. error (snd (bulkFetchSampleData xs d)) = Some e'"
  by (simp add: bulkFetchSampleData_def Let_def fetch_each_keeps_error)

lemma seek_result_snd:
  "snd (seek_result frame w d) = snd (bulkFetchSampleData w d)"
  by (simp add: seek_result_def split: prod.splits sum.splits)

lemma seek_keeps_error:
  "error d = Some e \<Longrightarrow> \<exists>e'. error (snd (seek t d)) = Some e'"
  by (simp add: seek_def Let_def seek_result_snd bulkFetchSampleData_keeps_error
      split: option.splits)

lemma readAllSamples_keeps_error:
  "error d = Some e \<Longrightarrow> \<exists>e'. error (snd (readAllSamples d)) = Some e'"
  by (simp add: readAllSamples_def bulkFetchSampleData_keeps_error)

lemmas unsupported_fields =
  demo_parse_fields [OF three_nonempty, where bytes = "demo_file 30" and supported = False,
    folded unsupported_parsed_def, unfolded index_three]

lemma indexed_unsupported: "indexed (demo_trak three_frames) unsupported_parsed"
  unfolding unsupported_parsed_def by (rule indexed_demo [OF numbered_three])

lemma unsupported_samples_nonempty: "videoSamples unsupported_parsed \<noteq> []"
  by (simp add: unsupported_fields)

text \<open>
  The file of three samples with a decoder configuration that is not supported: the error
  is trapped, and after it \<open>readAllSamples\<close> returns the three samples and \<open>seek\<close> a
  window.
\<close>

theorem calls_after_parse_error_proceed:
  "error unsupported_parsed = Some ''VideoDecoder config not supported'' \<and>
   map_sum id (map dtsIndex) (fst (readAllSamples unsupported_parsed)) = Inr [0, 1, 2] \<and>
   map_sum id window_view (fst (seek 1016 unsupported_parsed)) = Inr (1, [(0, True), (1, False)])"
  using bulkFetchSampleData_loaded [OF indexed_unsupported, of "videoSamples unsupported_parsed"]
  by (simp add: readAllSamples_def unsupported_fields
      seek_view [OF indexed_unsupported unsupported_samples_nonempty]
      sample_matches_def secToMs_def findLast_def delta_window_nat)

text \<open>
  Claim C9, as amended. Once an error is trapped, \<open>getVideoDecoderConfig\<close> raises it,
  and it stays trapped: \<open>seek\<close> and \<open>readAllSamples\<close> leave an error in place. These
  two do not consult the trapped error: their outcome is the one they have on the same
  demuxer without it. With no samples indexed, \<open>seek\<close> fails with its own "no video
  samples" error and \<open>readAllSamples\<close> returns the empty list.
\<close>

theorem trapped_error_reraised_by_getVideoDecoderConfig:
  assumes "error d = Some e"
  shows "getVideoDecoderConfig d = Inl (Trapped e) \<and>
         fst (seek t d) = fst (seek t (d\<lparr>error := None\<rparr>)) \<and>
         fst (readAllSamples d) = fst (readAllSamples (d\<lparr>error := None\<rparr>)) \<and>
         (videoSamples d = [] \<longrightarrow>
            fst (seek t d) = Inl SeekNoSamples \<and> fst (readAllSamples d) = Inr []) \<and>
         error (snd (seek t d)) \<noteq> None \<and> error (snd (readAllSamples d)) \<noteq> None"
proof -
  from seek_keeps_error [OF assms, of t] readAllSamples_keeps_error [OF assms]
  have "error (snd (seek t d)) \<noteq> None" "error (snd (readAllSamples d)) \<noteq> None"
    by auto
  moreover have "fst (seek t d) = fst (seek t (d\<lparr>error := None\<rparr>))"
    by (simp add: seek_error)
  moreover have "fst (readAllSamples d) = fst (readAllSamples (d\<lparr>error := None\<rparr>))"
    by (simp add: readAllSamples_error)
  moreover have "videoSamples d = [] \<longrightarrow>
      fst (seek t d) = Inl SeekNoSamples \<and> fst (readAllSamples d) = Inr []"
    by (simp add: seek_def readAllSamples_def bulkFetchSampleData_def)
  moreover from assms have "getVideoDecoderConfig d = Inl (Trapped e)"
    by (simp add: getVideoDecoderConfig_def)
  ultimately show ?thesis by blast
qed

theorem trapped_error_reraised_by_getVideoDecoderConfig_witness:
  "error unsupported_parsed = Some ''VideoDecoder config not supported'' \<and>
   getVideoDecoderConfig unsupported_parsed = Inl (Trapped ''VideoDecoder config not supported'') \<and>
   fst (seek 1016 unsupported_parsed) = fst (seek 1016 (unsupported_parsed\<lparr>error := None\<rparr>)) \<and>
   error (snd (readAllSamples unsupported_parsed)) \<noteq> None"
  using trapped_error_reraised_by_getVideoDecoderConfig
    [of unsupported_parsed "''VideoDecoder config not supported''" 1016]
  by (simp add: unsupported_fields)

end
